theory Spec2Isabelle
  imports Main "HOL-Library.AList"
begin

section \<open>The host document as the plugin sees it\<close>

text \<open>
  The plugin (code.js) runs against a host document: variable collections with their
  modes, variables with one value per mode, and pages of nodes whose properties may be
  bound to variables. Identities, names and type tags are JavaScript strings.
  A value of a variable is a literal (boolean, number, string, colour) or an alias
  object \<open>{ type: 'VARIABLE_ALIAS', id }\<close>. The payload of a literal is only ever copied,
  so numbers are kept as integers here.
\<close>

datatype val =
    BooleanV bool
  | FloatV int
  | StringV string
  | ColorV int int int int
  | VariableAlias string

record mode =
  modeId :: string
  mode_name :: string

record collection =
  c_id :: string
  c_name :: string
  c_modes :: "mode list"
  c_variableIds :: "string list"

text \<open>
  \<open>v_valuesByMode\<close> is the object \<open>valuesByMode\<close> as its entries in the order
  \<open>Object.keys\<close> lists them (mode identities are not integer-like strings, so this is the
  order of insertion); \<open>v_codeSyntax\<close> likewise.
\<close>

record variable =
  v_id :: string
  v_name :: string
  v_variableCollectionId :: string
  v_resolvedType :: string
  v_description :: string
  v_hiddenFromPublishing :: bool
  v_scopes :: "string list"
  v_codeSyntax :: "(string \<times> string) list"
  v_valuesByMode :: "(string \<times> val) list"

text \<open>A paint or an effect: its kind and the variable bound to its colour, if any.\<close>

record paint =
  p_type :: string
  p_boundColor :: "string option"

text \<open>
  A list-valued node property: missing from the node (\<open>'fills' in node\<close> is false), the
  host's \<open>mixed\<close> marker (not an array), or an array.
\<close>

datatype paints = Absent | Mixed | Items "paint list"

text \<open>
  An entry of \<open>node.boundVariables\<close>: a single object, with an \<open>id\<close> or without, or an
  array whose items have an \<open>id\<close> or not.
\<close>

datatype bound = SingleB "string option" | ArrayB "string option list"

record node =
  n_id :: string
  n_name :: string
  n_hasBoundVariables :: bool
  n_hasSetBoundVariable :: bool
  n_bound :: "(string \<times> bound) list"
  n_fills :: paints
  n_strokes :: paints
  n_effects :: paints

text \<open>What the plugin sends to the console and to the panel.\<close>

datatype host_call =
    CreateVariable string string string
  | SetDescription string string
  | SetHiddenFromPublishing string bool
  | SetScopes string "string list"
  | SetVariableCodeSyntax string string string
  | GetVariableById string
  | SetValueForMode string string val
  | RemoveVariable string
  | SetBoundVariable string string string
  | SetBoundVariableForPaint "paint option" string
  | SetBoundVariableForEffect "paint option" string
  | SetFills string "paint list"
  | SetStrokes string "paint list"
  | SetEffects string "paint list"

datatype exn = HostError host_call

datatype arg = Str string | Num nat | Err exn

datatype console_entry =
    ConsoleLog "arg list"
  | ConsoleWarn "arg list"
  | ConsoleError "arg list"

datatype ui_message =
    MoveError string
  | MoveComplete nat nat nat nat nat nat string

datatype ui_event = Notify "arg list" | PostMessage ui_message

record world =
  w_collections :: "collection list"
  w_variables :: "variable list"
  w_pages :: "node list list"
  w_console :: "console_entry list"
  w_ui :: "ui_event list"

text \<open>
  Any call that changes the document, and the lookup of a variable by identity, may be
  refused by the host with an exception. Which calls are refused is a parameter of every
  function below: \<open>H w c\<close> says that the host, in state \<open>w\<close>, throws on the call \<open>c\<close>.
\<close>

type_synonym host = "world \<Rightarrow> host_call \<Rightarrow> bool"

section \<open>Pure helpers of code.js\<close>

subsection \<open>findDuplicateNames\<close>

record partition_result =
  duplicates :: "variable list"
  canMove :: "variable list"

text \<open>The loop of \<open>findDuplicateNames\<close>: each variable is pushed onto one of two arrays.\<close>

fun findDuplicateNames_loop ::
  "string set \<Rightarrow> variable list \<Rightarrow> variable list \<Rightarrow> variable list \<Rightarrow> partition_result" where
  "findDuplicateNames_loop destinationNames [] dups can =
     \<lparr>duplicates = dups, canMove = can\<rparr>"
| "findDuplicateNames_loop destinationNames (variable # rest) dups can =
     (if v_name variable \<in> destinationNames
      then findDuplicateNames_loop destinationNames rest (dups @ [variable]) can
      else findDuplicateNames_loop destinationNames rest dups (can @ [variable]))"

definition findDuplicateNames :: "variable list \<Rightarrow> string set \<Rightarrow> partition_result" where
  "findDuplicateNames sourceVariables destinationNames =
     findDuplicateNames_loop destinationNames sourceVariables [] []"

subsection \<open>getDisplayTypeName\<close>

definition getDisplayTypeName :: "string \<Rightarrow> string" where
  "getDisplayTypeName figmaType = (if figmaType = ''FLOAT'' then ''NUMBER'' else figmaType)"

section \<open>Host operations\<close>

text \<open>
  A call either returns or throws. A primitive of the host that throws leaves the
  document as it was; a function of the plugin that throws half-way keeps the changes
  made so far, so it returns the state together with its outcome.
\<close>

datatype 'a outcome = Returns 'a | Throws exn

definition console :: "console_entry \<Rightarrow> world \<Rightarrow> world" where
  "console e w = w\<lparr>w_console := w_console w @ [e]\<rparr>"

definition ui :: "ui_event \<Rightarrow> world \<Rightarrow> world" where
  "ui e w = w\<lparr>w_ui := w_ui w @ [e]\<rparr>"

definition getVariable :: "world \<Rightarrow> string \<Rightarrow> variable option" where
  "getVariable w i = find (\<lambda>v. v_id v = i) (w_variables w)"

definition getCollection :: "world \<Rightarrow> string \<Rightarrow> collection option" where
  "getCollection w i = find (\<lambda>c. c_id c = i) (w_collections w)"

definition getNode :: "world \<Rightarrow> string \<Rightarrow> node option" where
  "getNode w i = find (\<lambda>n. n_id n = i) (concat (w_pages w))"

definition updateVariable :: "string \<Rightarrow> (variable \<Rightarrow> variable) \<Rightarrow> world \<Rightarrow> world" where
  "updateVariable i f w =
     w\<lparr>w_variables := map (\<lambda>v. if v_id v = i then f v else v) (w_variables w)\<rparr>"

definition updateNode :: "string \<Rightarrow> (node \<Rightarrow> node) \<Rightarrow> world \<Rightarrow> world" where
  "updateNode i f w =
     w\<lparr>w_pages := map (map (\<lambda>n. if n_id n = i then f n else n)) (w_pages w)\<rparr>"

text \<open>\<open>figma.variables.getVariableByIdAsync\<close>: the variable, \<open>null\<close>, or an exception.\<close>

definition getVariableByIdAsync :: "host \<Rightarrow> world \<Rightarrow> string \<Rightarrow> exn + variable option" where
  "getVariableByIdAsync H w i =
     (if H w (GetVariableById i) then Inl (HostError (GetVariableById i))
      else Inr (getVariable w i))"

text \<open>
  The host gives a new variable an identity that no variable of the document has (here:
  a string longer than all of them), the default value of its type at every mode of its
  collection, no description, and every scope.
\<close>

definition fresh_id :: "string list \<Rightarrow> string" where
  "fresh_id ids = replicate (Suc (foldr max (map length ids) 0)) (CHR ''v'')"

definition default_value :: "string \<Rightarrow> val" where
  "default_value t =
     (if t = ''BOOLEAN'' then BooleanV False
      else if t = ''FLOAT'' then FloatV 0
      else if t = ''STRING'' then StringV []
      else ColorV 1 1 1 1)"

definition createVariable ::
  "host \<Rightarrow> world \<Rightarrow> string \<Rightarrow> string \<Rightarrow> string \<Rightarrow> exn + world \<times> string" where
  "createVariable H w name collectionId resolvedType =
     (if H w (CreateVariable name collectionId resolvedType)
      then Inl (HostError (CreateVariable name collectionId resolvedType))
      else case getCollection w collectionId of
        None \<Rightarrow> Inl (HostError (CreateVariable name collectionId resolvedType))
      | Some c \<Rightarrow>
          let i = fresh_id (map v_id (w_variables w));
              nv = \<lparr>v_id = i, v_name = name, v_variableCollectionId = collectionId,
                    v_resolvedType = resolvedType, v_description = [],
                    v_hiddenFromPublishing = False, v_scopes = [''ALL_SCOPES''],
                    v_codeSyntax = [],
                    v_valuesByMode =
                      map (\<lambda>m. (modeId m, default_value resolvedType)) (c_modes c)\<rparr>
          in Inr (w\<lparr>w_variables := w_variables w @ [nv],
                    w_collections :=
                      map (\<lambda>c'. if c_id c' = collectionId
                                 then c'\<lparr>c_variableIds := c_variableIds c' @ [i]\<rparr> else c')
                          (w_collections w)\<rparr>, i))"

text \<open>
  A setter of a variable object: refused by the host, or failing because the variable is
  no longer in the document, or applied.
\<close>

definition hostSet ::
  "host \<Rightarrow> world \<Rightarrow> host_call \<Rightarrow> string \<Rightarrow> (variable \<Rightarrow> variable) \<Rightarrow> exn + world" where
  "hostSet H w c i f =
     (if H w c \<or> getVariable w i = None then Inl (HostError c)
      else Inr (updateVariable i f w))"

definition setValueForMode :: "host \<Rightarrow> world \<Rightarrow> string \<Rightarrow> string \<Rightarrow> val \<Rightarrow> exn + world" where
  "setValueForMode H w i m x =
     hostSet H w (SetValueForMode i m x) i
       (\<lambda>v. v\<lparr>v_valuesByMode := AList.update m x (v_valuesByMode v)\<rparr>)"

definition setVariableCodeSyntax ::
  "host \<Rightarrow> world \<Rightarrow> string \<Rightarrow> string \<Rightarrow> string \<Rightarrow> exn + world" where
  "setVariableCodeSyntax H w i platform x =
     hostSet H w (SetVariableCodeSyntax i platform x) i
       (\<lambda>v. v\<lparr>v_codeSyntax := AList.update platform x (v_codeSyntax v)\<rparr>)"

definition removeVariable :: "host \<Rightarrow> world \<Rightarrow> string \<Rightarrow> exn + world" where
  "removeVariable H w i =
     (if H w (RemoveVariable i) then Inl (HostError (RemoveVariable i))
      else Inr (w\<lparr>w_variables := filter (\<lambda>v. v_id v \<noteq> i) (w_variables w),
                  w_collections :=
                    map (\<lambda>c. c\<lparr>c_variableIds := filter (\<lambda>j. j \<noteq> i) (c_variableIds c)\<rparr>)
                        (w_collections w)\<rparr>))"

section \<open>Phase 1: createVariableInCollection\<close>

text \<open>The \<open>for ... in\<close> loop over the platforms of \<open>codeSyntax\<close>.\<close>

fun copyCodeSyntax ::
  "host \<Rightarrow> string \<Rightarrow> (string \<times> string) list \<Rightarrow> world \<Rightarrow> world \<times> unit outcome" where
  "copyCodeSyntax H newVariable [] w = (w, Returns ())"
| "copyCodeSyntax H newVariable ((platform, x) # rest) w =
     (case setVariableCodeSyntax H w newVariable platform x of
        Inl e \<Rightarrow> (w, Throws e)
      | Inr w' \<Rightarrow> copyCodeSyntax H newVariable rest w')"

definition createVariableInCollection ::
  "host \<Rightarrow> world \<Rightarrow> variable \<Rightarrow> collection \<Rightarrow> world \<times> string outcome" where
  "createVariableInCollection H w originalVariable destinationCollection =
     (case createVariable H w (v_name originalVariable) (c_id destinationCollection)
             (v_resolvedType originalVariable) of
        Inl e \<Rightarrow> (w, Throws e)
      | Inr (w1, newVariable) \<Rightarrow>
     (case (if v_description originalVariable \<noteq> []
            then hostSet H w1 (SetDescription newVariable (v_description originalVariable))
                   newVariable (\<lambda>v. v\<lparr>v_description := v_description originalVariable\<rparr>)
            else Inr w1) of
        Inl e \<Rightarrow> (w1, Throws e)
      | Inr w2 \<Rightarrow>
     (case hostSet H w2
             (SetHiddenFromPublishing newVariable (v_hiddenFromPublishing originalVariable))
             newVariable
             (\<lambda>v. v\<lparr>v_hiddenFromPublishing := v_hiddenFromPublishing originalVariable\<rparr>) of
        Inl e \<Rightarrow> (w2, Throws e)
      | Inr w3 \<Rightarrow>
     (case (if length (v_scopes originalVariable) > 0
            then hostSet H w3 (SetScopes newVariable (v_scopes originalVariable))
                   newVariable (\<lambda>v. v\<lparr>v_scopes := v_scopes originalVariable\<rparr>)
            else Inr w3) of
        Inl e \<Rightarrow> (w3, Throws e)
      | Inr w4 \<Rightarrow>
     (case copyCodeSyntax H newVariable (v_codeSyntax originalVariable) w4 of
        (w5, Throws e) \<Rightarrow> (w5, Throws e)
      | (w5, Returns _) \<Rightarrow> (w5, Returns newVariable))))))"

section \<open>Phase 2: copyVariableValues\<close>

text \<open>
  \<open>idMapping\<close> is a JavaScript object from the identity of an original to its new
  variable. It is kept as its entries in insertion order: an assignment to a key replaces
  the value in place or appends (\<open>AList.update\<close>), \<open>Object.keys\<close> is \<open>map fst\<close>, a
  lookup is \<open>map_of\<close>, and an entry is truthy exactly when it is there. A new variable
  is held by its identity.
\<close>

type_synonym idmap = "(string \<times> string) list"

text \<open>
  What the body of the loop does with one paired value. In the first alias case and for a
  literal an exception of \<open>setValueForMode\<close> leaves the function; in the second alias
  case the inner \<open>try\<close> catches it. (The arrow in two of the console texts is written
  \<open>->\<close> here.)
\<close>

definition copyValue ::
  "host \<Rightarrow> variable \<Rightarrow> string \<Rightarrow> idmap \<Rightarrow> mode \<Rightarrow> val \<Rightarrow> world \<Rightarrow> world \<times> unit outcome" where
  "copyValue H originalVariable newVariable idMapping destinationMode originalValue w =
     (case originalValue of
        VariableAlias referencedVariableId \<Rightarrow>
          (case map_of idMapping referencedVariableId of
             Some newReferencedVariable \<Rightarrow>
               (case setValueForMode H w newVariable (modeId destinationMode)
                       (VariableAlias newReferencedVariable) of
                  Inl e \<Rightarrow> (w, Throws e)
                | Inr w' \<Rightarrow>
                    (console (ConsoleLog [Str ''  Updated alias:'', Str (v_name originalVariable),
                                          Str ''-> new reference'']) w', Returns ()))
           | None \<Rightarrow>
               (case getVariableByIdAsync H w referencedVariableId of
                  Inl e \<Rightarrow>
                    (console (ConsoleError [Str ''  Error resolving alias for'',
                                            Str (v_name originalVariable), Err e]) w, Returns ())
                | Inr None \<Rightarrow>
                    (console (ConsoleWarn [Str ''  Warning: Referenced variable not found for'',
                                           Str (v_name originalVariable)]) w, Returns ())
                | Inr (Some referencedVariable) \<Rightarrow>
                    (case setValueForMode H w newVariable (modeId destinationMode)
                            (VariableAlias (v_id referencedVariable)) of
                       Inl e \<Rightarrow>
                         (console (ConsoleError [Str ''  Error resolving alias for'',
                                                 Str (v_name originalVariable), Err e]) w,
                          Returns ())
                     | Inr w' \<Rightarrow>
                         (console (ConsoleLog [Str ''  Kept alias:'', Str (v_name originalVariable),
                                               Str ''->'', Str (v_name referencedVariable),
                                               Str ''(cross-collection)'']) w', Returns ()))))
      | _ \<Rightarrow>
          (case setValueForMode H w newVariable (modeId destinationMode) originalValue of
             Inl e \<Rightarrow> (w, Throws e)
           | Inr w' \<Rightarrow> (w', Returns ())))"

text \<open>
  The loop \<open>for (let i = 0; i < destinationModes.length; i++)\<close>, from index \<open>i\<close> on, the
  list being the destination modes from \<open>i\<close>. The value is read as
  \<open>originalValues[originalModeIds[i]]\<close>; the key is one of the object's own keys, so the
  lookup cannot miss, and the branch for a miss is only there to make the function total.
\<close>

fun copyVariableValues_loop ::
  "host \<Rightarrow> variable \<Rightarrow> string \<Rightarrow> idmap \<Rightarrow> nat \<Rightarrow> mode list \<Rightarrow> world \<Rightarrow> world \<times> unit outcome" where
  "copyVariableValues_loop H originalVariable newVariable idMapping i [] w = (w, Returns ())"
| "copyVariableValues_loop H originalVariable newVariable idMapping i (destinationMode # rest) w =
     (let originalValues = v_valuesByMode originalVariable;
          originalModeIds = map fst originalValues
      in if i < length originalModeIds then
           (case map_of originalValues (originalModeIds ! i) of
              None \<Rightarrow> (w, Throws (HostError
                         (SetValueForMode newVariable (modeId destinationMode) (StringV []))))
            | Some originalValue \<Rightarrow>
                (case copyValue H originalVariable newVariable idMapping destinationMode
                        originalValue w of
                   (w', Throws e) \<Rightarrow> (w', Throws e)
                 | (w', Returns _) \<Rightarrow>
                     copyVariableValues_loop H originalVariable newVariable idMapping
                       (Suc i) rest w'))
         else copyVariableValues_loop H originalVariable newVariable idMapping (Suc i) rest w)"

definition copyVariableValues ::
  "host \<Rightarrow> world \<Rightarrow> variable \<Rightarrow> string \<Rightarrow> collection \<Rightarrow> idmap \<Rightarrow> world \<times> unit outcome" where
  "copyVariableValues H w originalVariable newVariable destinationCollection idMapping =
     copyVariableValues_loop H originalVariable newVariable idMapping 0
       (c_modes destinationCollection) w"

section \<open>Phase 3: findAllVariableBindings and rebindVariable\<close>

text \<open>
  \<open>node.boundVariables\<close> is computed by the host from the node: the entries kept on the
  node itself, and for \<open>fills\<close>, \<open>strokes\<close> and \<open>effects\<close> an array that has, at the
  index of each paint or effect, the variable bound to its colour. This is the alignment
  of indices that \<open>rebindVariable\<close> relies on.
\<close>

definition paintBindings :: "string \<Rightarrow> paints \<Rightarrow> (string \<times> bound) list" where
  "paintBindings property ps =
     (case ps of Items xs \<Rightarrow> [(property, ArrayB (map p_boundColor xs))] | _ \<Rightarrow> [])"

definition boundVariables :: "node \<Rightarrow> (string \<times> bound) list option" where
  "boundVariables n =
     (if n_hasBoundVariables n
      then Some (filter (\<lambda>(property, b). property \<notin> {''fills'', ''strokes'', ''effects''})
                   (n_bound n)
                 @ paintBindings ''fills'' (n_fills n)
                 @ paintBindings ''strokes'' (n_strokes n)
                 @ paintBindings ''effects'' (n_effects n))
      else None)"

text \<open>A located binding; the node is held by its identity.\<close>

record binding =
  b_node :: string
  b_property :: string
  b_variableId :: string
  b_bindingIndex :: "nat option"
  b_isArrayBinding :: bool

text \<open>The inner loop over the items of an array binding, from \<open>index\<close> on.\<close>

fun arrayBindings ::
  "string set \<Rightarrow> node \<Rightarrow> string \<Rightarrow> nat \<Rightarrow> string option list \<Rightarrow> binding list" where
  "arrayBindings targetVariableIds n propertyName index [] = []"
| "arrayBindings targetVariableIds n propertyName index (item # items) =
     (case item of
        Some i \<Rightarrow>
          (if i \<noteq> [] \<and> i \<in> targetVariableIds
           then [\<lparr>b_node = n_id n, b_property = propertyName, b_variableId = i,
                  b_bindingIndex = Some index, b_isArrayBinding = True\<rparr>]
           else [])
      | None \<Rightarrow> [])
     @ arrayBindings targetVariableIds n propertyName (Suc index) items"

definition propertyBindings :: "string set \<Rightarrow> node \<Rightarrow> string \<times> bound \<Rightarrow> binding list" where
  "propertyBindings targetVariableIds n entry =
     (case entry of
        (propertyName, ArrayB items) \<Rightarrow> arrayBindings targetVariableIds n propertyName 0 items
      | (propertyName, SingleB (Some i)) \<Rightarrow>
          (if i \<noteq> [] \<and> i \<in> targetVariableIds
           then [\<lparr>b_node = n_id n, b_property = propertyName, b_variableId = i,
                  b_bindingIndex = None, b_isArrayBinding = False\<rparr>]
           else [])
      | (propertyName, SingleB None) \<Rightarrow> [])"

definition nodeBindings :: "string set \<Rightarrow> node \<Rightarrow> binding list" where
  "nodeBindings targetVariableIds n =
     (case boundVariables n of
        None \<Rightarrow> []
      | Some boundVars \<Rightarrow> concat (map (propertyBindings targetVariableIds n) boundVars))"

definition findAllVariableBindings :: "world \<Rightarrow> string list \<Rightarrow> binding list" where
  "findAllVariableBindings w variableIds =
     concat (map (\<lambda>page. concat (map (nodeBindings (set variableIds)) page)) (w_pages w))"

text \<open>Host calls on a node, and the two pure-looking helpers that bind a paint or effect.\<close>

definition hostNode ::
  "host \<Rightarrow> world \<Rightarrow> host_call \<Rightarrow> string \<Rightarrow> (node \<Rightarrow> node) \<Rightarrow> exn + world" where
  "hostNode H w c i f = (if H w c then Inl (HostError c) else Inr (updateNode i f w))"

definition setBoundVariable :: "host \<Rightarrow> world \<Rightarrow> string \<Rightarrow> string \<Rightarrow> string \<Rightarrow> exn + world" where
  "setBoundVariable H w i property newVariable =
     hostNode H w (SetBoundVariable i property newVariable) i
       (\<lambda>n. n\<lparr>n_bound := AList.update property (SingleB (Some newVariable)) (n_bound n)\<rparr>)"

text \<open>
  \<open>setBoundVariableForPaint\<close> and \<open>setBoundVariableForEffect\<close> return a copy of the item
  bound to the variable; on \<open>undefined\<close> in place of the item they throw.
\<close>

definition bindItem ::
  "host \<Rightarrow> world \<Rightarrow> (paint option \<Rightarrow> string \<Rightarrow> host_call) \<Rightarrow> paint option \<Rightarrow> string
     \<Rightarrow> exn + paint" where
  "bindItem H w call item newVariable =
     (case item of
        None \<Rightarrow> Inl (HostError (call item newVariable))
      | Some p \<Rightarrow>
          if H w (call item newVariable) then Inl (HostError (call item newVariable))
          else Inr (p\<lparr>p_boundColor := Some newVariable\<rparr>))"

text \<open>
  One of the three branches of \<open>rebindVariable\<close> for an array binding; they differ in the
  property read and written and in the helper called. \<open>current\<close> is the property read
  from the node, already known not to be missing. With \<open>bindingIndex\<close> being \<open>null\<close>,
  JavaScript compares \<open>0\<close> with the length and then reads \<open>newItems[null]\<close>, which is
  \<open>undefined\<close>. The clone made by \<open>JSON.parse(JSON.stringify(...))\<close> is the same list;
  the node changes only through the assignment of the whole new list.
\<close>

definition rebindItems ::
  "host \<Rightarrow> world \<Rightarrow> (paint option \<Rightarrow> string \<Rightarrow> host_call) \<Rightarrow> (paint list \<Rightarrow> host_call)
     \<Rightarrow> string \<Rightarrow> (paint list \<Rightarrow> node \<Rightarrow> node) \<Rightarrow> paints \<Rightarrow> string \<Rightarrow> nat option
     \<Rightarrow> world \<times> bool outcome" where
  "rebindItems H w bindCall assignCall nodeId assign current newVariable bindingIndex =
     (case current of
        Items currentItems \<Rightarrow>
          if (case bindingIndex of None \<Rightarrow> 0 | Some k \<Rightarrow> k) \<ge> length currentItems
          then (w, Returns False)
          else
            let newItems = currentItems in
            (case bindItem H w bindCall
                    (case bindingIndex of None \<Rightarrow> None | Some k \<Rightarrow> Some (newItems ! k))
                    newVariable of
               Inl e \<Rightarrow> (w, Throws e)
             | Inr item \<Rightarrow>
                 let newItems' = (case bindingIndex of None \<Rightarrow> newItems
                                  | Some k \<Rightarrow> newItems[k := item]) in
                 (case hostNode H w (assignCall newItems') nodeId (assign newItems') of
                    Inl e \<Rightarrow> (w, Throws e)
                  | Inr w' \<Rightarrow> (w', Returns True)))
      | _ \<Rightarrow> (w, Returns False))"

text \<open>
  The body of the \<open>try\<close> in \<open>rebindVariable\<close>. A node that is no longer in the document
  cannot be read: that is an exception as well.
\<close>

definition rebindVariable_body ::
  "host \<Rightarrow> world \<Rightarrow> string \<Rightarrow> string \<Rightarrow> string \<Rightarrow> nat option \<Rightarrow> bool \<Rightarrow> world \<times> bool outcome" where
  "rebindVariable_body H w nodeId property newVariable bindingIndex isArrayBinding =
     (case getNode w nodeId of
        None \<Rightarrow> (w, Throws (HostError (SetBoundVariable nodeId property newVariable)))
      | Some n \<Rightarrow>
          if \<not> isArrayBinding then
            (if n_hasSetBoundVariable n then
               (case setBoundVariable H w nodeId property newVariable of
                  Inl e \<Rightarrow> (w, Throws e)
                | Inr w' \<Rightarrow> (w', Returns True))
             else (w, Returns False))
          else if property = ''fills'' \<and> n_fills n \<noteq> Absent then
            rebindItems H w SetBoundVariableForPaint (SetFills nodeId) nodeId
              (\<lambda>xs m. m\<lparr>n_fills := Items xs\<rparr>) (n_fills n) newVariable bindingIndex
          else if property = ''strokes'' \<and> n_strokes n \<noteq> Absent then
            rebindItems H w SetBoundVariableForPaint (SetStrokes nodeId) nodeId
              (\<lambda>xs m. m\<lparr>n_strokes := Items xs\<rparr>) (n_strokes n) newVariable bindingIndex
          else if property = ''effects'' \<and> n_effects n \<noteq> Absent then
            rebindItems H w SetBoundVariableForEffect (SetEffects nodeId) nodeId
              (\<lambda>xs m. m\<lparr>n_effects := Items xs\<rparr>) (n_effects n) newVariable bindingIndex
          else (w, Returns False))"

definition rebindVariable ::
  "host \<Rightarrow> world \<Rightarrow> string \<Rightarrow> string \<Rightarrow> string \<Rightarrow> nat option \<Rightarrow> bool \<Rightarrow> world \<times> bool" where
  "rebindVariable H w nodeId property newVariable bindingIndex isArrayBinding =
     (case rebindVariable_body H w nodeId property newVariable bindingIndex isArrayBinding of
        (w', Returns b) \<Rightarrow> (w', b)
      | (w', Throws e) \<Rightarrow>
          (console (ConsoleError [Str ''Failed to rebind variable:'', Str property, Err e]) w', False))"

section \<open>Enumerating a collection\<close>

text \<open>The loop of \<open>getVariablesInCollection\<close>; a lookup that throws is not caught.\<close>

fun getVariablesInCollection_loop ::
  "host \<Rightarrow> world \<Rightarrow> string list \<Rightarrow> variable list \<Rightarrow> exn + variable list" where
  "getVariablesInCollection_loop H w [] variables = Inr variables"
| "getVariablesInCollection_loop H w (variableId # rest) variables =
     (case getVariableByIdAsync H w variableId of
        Inl e \<Rightarrow> Inl e
      | Inr None \<Rightarrow> getVariablesInCollection_loop H w rest variables
      | Inr (Some v) \<Rightarrow> getVariablesInCollection_loop H w rest (variables @ [v]))"

definition getVariablesInCollection :: "host \<Rightarrow> world \<Rightarrow> string \<Rightarrow> exn + variable list" where
  "getVariablesInCollection H w collectionId =
     (case getCollection w collectionId of
        None \<Rightarrow> Inr []
      | Some c \<Rightarrow> getVariablesInCollection_loop H w (c_variableIds c) [])"

definition getVariableNamesInCollection :: "host \<Rightarrow> world \<Rightarrow> string \<Rightarrow> exn + string set" where
  "getVariableNamesInCollection H w collectionId =
     (case getVariablesInCollection H w collectionId of
        Inl e \<Rightarrow> Inl e
      | Inr variables \<Rightarrow> Inr (set (map v_name variables)))"

section \<open>The handler of move-variables\<close>

text \<open>
  The fields of the request; a field may be missing (\<open>undefined\<close>). An identity that is
  missing or the empty string is falsy.
\<close>

record move_msg =
  sourceCollectionId :: "string option"
  destinationCollectionId :: "string option"
  selectedVariableIds :: "string list option"

definition falsy :: "string option \<Rightarrow> bool" where
  "falsy x = (case x of None \<Rightarrow> True | Some s \<Rightarrow> s = [])"

text \<open>A validation that fails notifies, posts \<open>move-error\<close> and returns.\<close>

definition reject :: "string \<Rightarrow> string \<Rightarrow> world \<Rightarrow> world" where
  "reject notification message w = ui (PostMessage (MoveError message)) (ui (Notify [Str notification]) w)"

text \<open>The loop of phase 1, with \<open>idMapping\<close> and its two counters.\<close>

fun phase1 ::
  "host \<Rightarrow> collection \<Rightarrow> variable list \<Rightarrow> world \<times> idmap \<times> nat \<times> nat
     \<Rightarrow> world \<times> idmap \<times> nat \<times> nat" where
  "phase1 H destinationCollection [] st = st"
| "phase1 H destinationCollection (originalVariable # rest)
      (w, idMapping, createSuccessCount, createErrorCount) =
     (case createVariableInCollection H w originalVariable destinationCollection of
        (w', Returns newVariable) \<Rightarrow>
          phase1 H destinationCollection rest
            (console (ConsoleLog [Str ''  Created:'', Str (v_name originalVariable)]) w',
             AList.update (v_id originalVariable) newVariable idMapping,
             Suc createSuccessCount, createErrorCount)
      | (w', Throws e) \<Rightarrow>
          phase1 H destinationCollection rest
            (console (ConsoleError [Str ''  Failed to create:'', Str (v_name originalVariable), Err e]) w',
             idMapping, createSuccessCount, Suc createErrorCount))"

text \<open>The loop of phase 2, with its two counters.\<close>

fun phase2 ::
  "host \<Rightarrow> collection \<Rightarrow> idmap \<Rightarrow> variable list \<Rightarrow> world \<times> nat \<times> nat \<Rightarrow> world \<times> nat \<times> nat" where
  "phase2 H destinationCollection idMapping [] st = st"
| "phase2 H destinationCollection idMapping (originalVariable # rest)
      (w, valueSuccessCount, valueErrorCount) =
     (case map_of idMapping (v_id originalVariable) of
        None \<Rightarrow>
          phase2 H destinationCollection idMapping rest
            (console (ConsoleError [Str ''  No new variable found for:'',
                                    Str (v_name originalVariable)]) w,
             valueSuccessCount, Suc valueErrorCount)
      | Some newVariable \<Rightarrow>
          (case copyVariableValues H w originalVariable newVariable destinationCollection
                  idMapping of
             (w', Returns _) \<Rightarrow>
               phase2 H destinationCollection idMapping rest
                 (console (ConsoleLog [Str ''  Copied values:'', Str (v_name originalVariable)]) w',
                  Suc valueSuccessCount, valueErrorCount)
           | (w', Throws e) \<Rightarrow>
               phase2 H destinationCollection idMapping rest
                 (console (ConsoleError [Str ''  Failed to copy values:'',
                                         Str (v_name originalVariable), Err e]) w',
                  valueSuccessCount, Suc valueErrorCount)))"

text \<open>
  The loop of phase 3. The name in the console line is read from the node, which is in
  the document since the rebind succeeded.
\<close>

fun phase3 ::
  "host \<Rightarrow> idmap \<Rightarrow> binding list \<Rightarrow> world \<times> nat \<times> nat \<Rightarrow> world \<times> nat \<times> nat" where
  "phase3 H idMapping [] st = st"
| "phase3 H idMapping (b # rest) (w, rebindSuccessCount, rebindErrorCount) =
     (case map_of idMapping (b_variableId b) of
        None \<Rightarrow> phase3 H idMapping rest (w, rebindSuccessCount, Suc rebindErrorCount)
      | Some newVariable \<Rightarrow>
          (case rebindVariable H w (b_node b) (b_property b) newVariable
                  (b_bindingIndex b) (b_isArrayBinding b) of
             (w', True) \<Rightarrow>
               phase3 H idMapping rest
                 (console (ConsoleLog [Str ''  Rebound:'',
                            Str (case getNode w' (b_node b) of Some n \<Rightarrow> n_name n | None \<Rightarrow> []),
                            Str ''->'', Str (b_property b)]) w',
                  Suc rebindSuccessCount, rebindErrorCount)
           | (w', False) \<Rightarrow>
               phase3 H idMapping rest (w', rebindSuccessCount, Suc rebindErrorCount)))"

text \<open>The loop of phase 4, with its counter.\<close>

fun phase4 :: "host \<Rightarrow> string list \<Rightarrow> world \<times> nat \<Rightarrow> world \<times> nat" where
  "phase4 H [] st = st"
| "phase4 H (oldVariableId # rest) (w, deleteCount) =
     (case getVariableByIdAsync H w oldVariableId of
        Inl e \<Rightarrow>
          phase4 H rest
            (console (ConsoleError [Str ''  Failed to delete variable:'', Str oldVariableId, Err e]) w,
             deleteCount)
      | Inr None \<Rightarrow> phase4 H rest (w, deleteCount)
      | Inr (Some oldVariable) \<Rightarrow>
          (case removeVariable H w (v_id oldVariable) of
             Inl e \<Rightarrow>
               phase4 H rest
                 (console (ConsoleError [Str ''  Failed to delete variable:'', Str oldVariableId,
                                         Err e]) w,
                  deleteCount)
           | Inr w' \<Rightarrow> phase4 H rest (w', Suc deleteCount)))"

text \<open>The text of the closing notification.\<close>

definition summaryMessage :: "nat \<Rightarrow> string \<Rightarrow> nat \<Rightarrow> arg list" where
  "summaryMessage createSuccessCount destinationName skipped =
     [Str ''Moved '', Num createSuccessCount, Str '' variable'']
     @ (if createSuccessCount \<noteq> 1 then [Str ''s''] else [])
     @ [Str '' to '', Str [CHR 0x22], Str destinationName, Str [CHR 0x22]]
     @ (if skipped > 0 then [Str '' ('', Num skipped, Str '' skipped)''] else [])"

text \<open>
  Everything after the validations: the four phases and the completion message. The
  results of the phases are named as in the source.
\<close>

record migration =
  g_afterPhase1 :: world
  g_idMapping :: idmap
  g_createSuccessCount :: nat
  g_createErrorCount :: nat
  g_afterPhase2 :: world
  g_valueSuccessCount :: nat
  g_valueErrorCount :: nat
  g_allBindings :: "binding list"
  g_afterPhase3 :: world
  g_rebindSuccessCount :: nat
  g_rebindErrorCount :: nat
  g_afterPhase4 :: world
  g_deleteCount :: nat

definition runPhases ::
  "host \<Rightarrow> world \<Rightarrow> string list \<Rightarrow> collection \<Rightarrow> variable list \<Rightarrow> variable list \<Rightarrow> migration" where
  "runPhases H w selected destinationCollection safeToMove dups =
     (let w0 = console (ConsoleLog [Str ''  Skipped (duplicates):'', Num (length dups)])
                (console (ConsoleLog [Str ''  Moving:'', Num (length safeToMove)])
                (console (ConsoleLog [Str ''  Selected:'', Num (length selected)])
                (console (ConsoleLog [Str ''PHASE 1: Creating new variables (without values)...''])
                   w)));
          (w1, idMapping, createSuccessCount, createErrorCount) =
             phase1 H destinationCollection safeToMove (w0, [], 0, 0);
          w1' = console (ConsoleLog [Str ''PHASE 2: Copying values...''])
                 (console (ConsoleLog [Str ''PHASE 1 complete:'', Num createSuccessCount,
                                       Str ''created,'', Num createErrorCount, Str ''failed'']) w1);
          (w2, valueSuccessCount, valueErrorCount) =
             phase2 H destinationCollection idMapping safeToMove (w1', 0, 0);
          w2' = console (ConsoleLog [Str ''PHASE 3: Finding all variable bindings...''])
                 (console (ConsoleLog [Str ''PHASE 2 complete:'', Num valueSuccessCount,
                                       Str ''copied,'', Num valueErrorCount, Str ''failed'']) w2);
          oldVariableIds = map fst idMapping;
          allBindings = findAllVariableBindings w2' oldVariableIds;
          w2'' = console (ConsoleLog [Str ''  Found'', Num (length allBindings),
                                      Str ''bindings to update'']) w2';
          (w3, rebindSuccessCount, rebindErrorCount) = phase3 H idMapping allBindings (w2'', 0, 0);
          w3' = console (ConsoleLog [Str ''PHASE 4: Deleting old variables...''])
                 (console (ConsoleLog [Str ''PHASE 3 complete:'', Num rebindSuccessCount,
                                       Str ''rebound,'', Num rebindErrorCount, Str ''failed'']) w3);
          (w4, deleteCount) = phase4 H oldVariableIds (w3', 0);
          w4' = console (ConsoleLog [Str ''PHASE 4 complete:'', Num deleteCount, Str ''deleted'']) w4
      in \<lparr>g_afterPhase1 = w1, g_idMapping = idMapping,
          g_createSuccessCount = createSuccessCount, g_createErrorCount = createErrorCount,
          g_afterPhase2 = w2, g_valueSuccessCount = valueSuccessCount,
          g_valueErrorCount = valueErrorCount, g_allBindings = allBindings,
          g_afterPhase3 = w3, g_rebindSuccessCount = rebindSuccessCount,
          g_rebindErrorCount = rebindErrorCount, g_afterPhase4 = w4',
          g_deleteCount = deleteCount\<rparr>)"

definition complete :: "migration \<Rightarrow> collection \<Rightarrow> variable list \<Rightarrow> world" where
  "complete g destinationCollection dups =
     ui (PostMessage (MoveComplete (g_createSuccessCount g) (g_createErrorCount g) (length dups)
                        (g_rebindSuccessCount g) (g_rebindErrorCount g) (g_deleteCount g)
                        (c_name destinationCollection)))
       (ui (Notify (summaryMessage (g_createSuccessCount g) (c_name destinationCollection)
                      (length dups)))
          (g_afterPhase4 g))"

text \<open>
  The branch \<open>msg.type === 'move-variables'\<close> of the message handler, in two parts.
  First the part headed VALIDATION in the source, up to the check for duplicates: it only
  reads the document, and ends in a rejection (the notification and the \<open>move-error\<close>
  message to send), in an exception of a lookup that nothing catches, or with the
  selection, the destination collection, the variables to move, those safe to move and
  the duplicates.
\<close>

datatype validation =
    Rejected string string
  | Uncaught exn
  | Accepted "string list" collection "variable list" "variable list" "variable list"

text \<open>\<open>msg.selectedVariableIds || []\<close>: a missing field counts as the empty list.\<close>

definition orEmpty :: "string list option \<Rightarrow> string list" where
  "orEmpty x = (case x of None \<Rightarrow> [] | Some xs \<Rightarrow> xs)"

definition validate :: "host \<Rightarrow> world \<Rightarrow> move_msg \<Rightarrow> validation" where
  "validate H w msg =
     (let selected = orEmpty (selectedVariableIds msg) in
      if falsy (sourceCollectionId msg) \<or> falsy (destinationCollectionId msg) then
        Rejected ''Please select both source and destination collections!''
                 ''Please select both collections before moving.''
      else if sourceCollectionId msg = destinationCollectionId msg then
        Rejected ''Source and destination cannot be the same!''
                 ''You cannot move variables to the same collection.''
      else if length selected = 0 then
        Rejected ''No variables selected!''
                 ''Please select at least one variable to move.''
      else
        (case (getCollection w (the (sourceCollectionId msg)),
               getCollection w (the (destinationCollectionId msg))) of
           (Some sourceCollection, Some destinationCollection) \<Rightarrow>
             (case getVariablesInCollection H w (the (sourceCollectionId msg)) of
                Inl e \<Rightarrow> Uncaught e
              | Inr allSourceVariables \<Rightarrow>
                  let variablesToMove =
                        filter (\<lambda>variable. v_id variable \<in> set selected) allSourceVariables
                  in
                  if length variablesToMove = 0 then
                    Rejected ''No valid variables to move!''
                             ''The selected variables could not be found.''
                  else
                    (case getVariableNamesInCollection H w (the (destinationCollectionId msg)) of
                       Inl e \<Rightarrow> Uncaught e
                     | Inr destinationNames \<Rightarrow>
                         let r = findDuplicateNames variablesToMove destinationNames;
                             safeToMove = canMove r
                         in
                         if length safeToMove = 0 then
                           Rejected ''All selected variables have duplicate names!''
                                    ''All selected variables already exist in the destination.''
                         else
                           Accepted selected destinationCollection variablesToMove safeToMove
                             (duplicates r)))
         | _ \<Rightarrow>
             Rejected ''One of the collections no longer exists!''
                      ''Collection not found. It may have been deleted.''))"

text \<open>
  Then what follows from it. The fields of \<open>MoveComplete\<close> are, in this order,
  \<open>successCount\<close>, \<open>errorCount\<close>, \<open>skippedCount\<close>, \<open>rebindSuccessCount\<close>,
  \<open>rebindErrorCount\<close>, \<open>deletedCount\<close> and \<open>destinationName\<close>.
\<close>

definition move_variables :: "host \<Rightarrow> world \<Rightarrow> move_msg \<Rightarrow> world \<times> unit outcome" where
  "move_variables H w msg =
     (case validate H w msg of
        Rejected notification message \<Rightarrow> (reject notification message w, Returns ())
      | Uncaught e \<Rightarrow> (w, Throws e)
      | Accepted selected destinationCollection variablesToMove safeToMove dups \<Rightarrow>
          (complete
             (runPhases H
                (ui (Notify [Str ''Moving '', Num (length safeToMove), Str '' variable(s)...'']) w)
                selected destinationCollection safeToMove dups)
             destinationCollection dups,
           Returns ()))"

text \<open>The six rejections of the validation, in the order of the source.\<close>

definition validationResponses :: "(string \<times> string) list" where
  "validationResponses =
     [(''Please select both source and destination collections!'',
       ''Please select both collections before moving.''),
      (''Source and destination cannot be the same!'',
       ''You cannot move variables to the same collection.''),
      (''No variables selected!'',
       ''Please select at least one variable to move.''),
      (''One of the collections no longer exists!'',
       ''Collection not found. It may have been deleted.''),
      (''No valid variables to move!'',
       ''The selected variables could not be found.''),
      (''All selected variables have duplicate names!'',
       ''All selected variables already exist in the destination.'')]"

section \<open>Vocabulary of the statements\<close>

text \<open>
  The value a variable of the document has at a mode, and the relation between two states
  that differ at most in the values of one variable at the modes in \<open>M\<close> and in what
  was added to the console.
\<close>

definition valueAt :: "world \<Rightarrow> string \<Rightarrow> string \<Rightarrow> val option" where
  "valueAt w i m = (case getVariable w i of None \<Rightarrow> None | Some v \<Rightarrow> map_of (v_valuesByMode v) m)"

definition onlyValues :: "string \<Rightarrow> string set \<Rightarrow> world \<Rightarrow> world \<Rightarrow> bool" where
  "onlyValues nv M w w' \<longleftrightarrow>
     w_collections w' = w_collections w \<and> w_pages w' = w_pages w \<and> w_ui w' = w_ui w
     \<and> map v_id (w_variables w') = map v_id (w_variables w)
     \<and> (\<forall>j. j \<noteq> nv \<longrightarrow> getVariable w' j = getVariable w j)
     \<and> (\<forall>j. (getVariable w' j = None) = (getVariable w j = None))
     \<and> (\<forall>m. m \<notin> M \<longrightarrow> valueAt w' nv m = valueAt w nv m)
     \<and> (\<exists>es. w_console w' = w_console w @ es)"

text \<open>
  What \<open>copyValue\<close> is expected to write for an original value when the host refuses
  nothing: a literal as it is, an alias to a moved variable as an alias to its new
  variable, an alias to an unmoved variable as it is when that variable is in the
  document, and nothing when it is not.
\<close>

definition expectedWrite :: "world \<Rightarrow> idmap \<Rightarrow> val \<Rightarrow> val option" where
  "expectedWrite w idm x =
     (case x of
        VariableAlias R \<Rightarrow>
          (case map_of idm R of
             Some S \<Rightarrow> Some (VariableAlias S)
           | None \<Rightarrow> if getVariable w R = None then None else Some (VariableAlias R))
      | _ \<Rightarrow> Some x)"

text \<open>
  The three list-valued properties \<open>rebindVariable\<close> knows, by name: reading one from a
  node, writing one, and the host calls made for it.
\<close>

definition nodeItems :: "string \<Rightarrow> node \<Rightarrow> paints" where
  "nodeItems property n =
     (if property = ''fills'' then n_fills n
      else if property = ''strokes'' then n_strokes n
      else if property = ''effects'' then n_effects n
      else Absent)"

definition withItems :: "string \<Rightarrow> paint list \<Rightarrow> node \<Rightarrow> node" where
  "withItems property xs n =
     (if property = ''fills'' then n\<lparr>n_fills := Items xs\<rparr>
      else if property = ''strokes'' then n\<lparr>n_strokes := Items xs\<rparr>
      else if property = ''effects'' then n\<lparr>n_effects := Items xs\<rparr>
      else n)"

definition bindCallOf :: "string \<Rightarrow> paint option \<Rightarrow> string \<Rightarrow> host_call" where
  "bindCallOf property = (if property = ''effects'' then SetBoundVariableForEffect else SetBoundVariableForPaint)"

definition assignCallOf :: "string \<Rightarrow> string \<Rightarrow> paint list \<Rightarrow> host_call" where
  "assignCallOf property = (if property = ''fills'' then SetFills else if property = ''strokes'' then SetStrokes else SetEffects)"

text \<open>
  The identities of the variables of the document. A step of phase 1 only adds variables
  (\<open>grows\<close>): the variables it finds stay as they are, and pages and panel are not
  touched. After the new variable exists, the rest of \<open>createVariableInCollection\<close>
  only changes that one variable (\<open>shellStep\<close>). \<open>shellsOk old w idm\<close> says of an
  \<open>idMapping\<close> that its new variables are in the document, are pairwise different, and
  are none of the identities \<open>old\<close> the document had before.
\<close>

definition ids :: "world \<Rightarrow> string set" where
  "ids w = v_id ` set (w_variables w)"

definition grows :: "world \<Rightarrow> world \<Rightarrow> bool" where
  "grows w w' \<longleftrightarrow>
     w_pages w' = w_pages w \<and> w_ui w' = w_ui w
     \<and> (\<forall>j \<in> ids w. getVariable w' j = getVariable w j) \<and> ids w \<subseteq> ids w'"

definition shellStep :: "string \<Rightarrow> world \<Rightarrow> world \<Rightarrow> bool" where
  "shellStep i w w' \<longleftrightarrow>
     ids w' = ids w \<and> w_pages w' = w_pages w \<and> w_ui w' = w_ui w
     \<and> (\<forall>j. j \<noteq> i \<longrightarrow> getVariable w' j = getVariable w j)"

definition shellsOk :: "string set \<Rightarrow> world \<Rightarrow> idmap \<Rightarrow> bool" where
  "shellsOk old w idm \<longleftrightarrow>
     snd ` set idm \<subseteq> ids w \<and> distinct (map snd idm) \<and> snd ` set idm \<inter> old = {} \<and> old \<subseteq> ids w"

text \<open>
  Phase 2 changes no variable outside the set \<open>T\<close> and removes none (\<open>keeps\<close>);
  \<open>shellsOf idm vs\<close> are the new variables of the originals \<open>vs\<close>. Two states may
  differ in the console only (\<open>consoleOnly\<close>). Phase 3 changes at most the nodes in
  \<open>N\<close> (\<open>nodesOnly\<close>).
\<close>

definition keeps :: "string set \<Rightarrow> world \<Rightarrow> world \<Rightarrow> bool" where
  "keeps T w w' \<longleftrightarrow>
     w_collections w' = w_collections w \<and> w_pages w' = w_pages w \<and> w_ui w' = w_ui w
     \<and> map v_id (w_variables w') = map v_id (w_variables w)
     \<and> (\<forall>j. j \<notin> T \<longrightarrow> getVariable w' j = getVariable w j)
     \<and> (\<forall>j. (getVariable w' j = None) = (getVariable w j = None))"

definition shellsOf :: "idmap \<Rightarrow> variable list \<Rightarrow> string set" where
  "shellsOf idm vs = {s. \<exists>v \<in> set vs. map_of idm (v_id v) = Some s}"

definition consoleOnly :: "world \<Rightarrow> world \<Rightarrow> bool" where
  "consoleOnly w w' \<longleftrightarrow> (\<exists>es. w' = w\<lparr>w_console := w_console w @ es\<rparr>)"

definition nodesOnly :: "string set \<Rightarrow> world \<Rightarrow> world \<Rightarrow> bool" where
  "nodesOnly N w w' \<longleftrightarrow>
     w_variables w' = w_variables w \<and> w_collections w' = w_collections w \<and> w_ui w' = w_ui w
     \<and> (\<forall>n. n \<notin> N \<longrightarrow> getNode w' n = getNode w n)"

section \<open>Example documents\<close>

text \<open>A colour variable of a collection \<open>Brand\<close>, given its identity, name and values.\<close>

definition brandVariable :: "string \<Rightarrow> string \<Rightarrow> (string \<times> val) list \<Rightarrow> variable" where
  "brandVariable i name vals =
     \<lparr>v_id = i, v_name = name, v_variableCollectionId = ''Brand'', v_resolvedType = ''COLOR'',
      v_description = [], v_hiddenFromPublishing = False, v_scopes = [], v_codeSyntax = [],
      v_valuesByMode = vals\<rparr>"

text \<open>A host that refuses nothing, and one that refuses every call.\<close>

definition accepting :: host where
  "accepting w c = False"

definition refusing :: host where
  "refusing w c = True"

text \<open>
  A document with two collections. \<open>Brand\<close> has two modes and three variables:
  \<open>color-base\<close>, \<open>color-alias\<close> (an alias to \<open>color-base\<close> at one mode and to a variable of
  \<open>Tokens\<close> at the other) and \<open>accent\<close> (whose name is taken in \<open>Tokens\<close>, and whose
  second value is an alias to a variable that is gone). \<open>Tokens\<close> has three modes and one
  variable. One node is bound to \<open>color-base\<close> by a single binding and to
  \<open>color-alias\<close> by its first fill; another node cannot be bound at all.
\<close>

definition brandCollection :: collection where
  "brandCollection =
     \<lparr>c_id = ''Brand'', c_name = ''Brand'',
      c_modes = [\<lparr>modeId = ''b1'', mode_name = ''Light''\<rparr>,
                 \<lparr>modeId = ''b2'', mode_name = ''Dark''\<rparr>],
      c_variableIds = [''A'', ''B'', ''D'']\<rparr>"

definition tokensCollection :: collection where
  "tokensCollection =
     \<lparr>c_id = ''Tokens'', c_name = ''Tokens'',
      c_modes = [\<lparr>modeId = ''t1'', mode_name = ''Day''\<rparr>,
                 \<lparr>modeId = ''t2'', mode_name = ''Night''\<rparr>,
                 \<lparr>modeId = ''t3'', mode_name = ''Contrast''\<rparr>],
      c_variableIds = [''T'']\<rparr>"

definition colorBase :: variable where
  "colorBase = brandVariable ''A'' ''color-base'' [(''b1'', ColorV 1 0 0 1), (''b2'', ColorV 0 0 1 1)]"

definition colorAlias :: variable where
  "colorAlias =
     brandVariable ''B'' ''color-alias'' [(''b1'', VariableAlias ''A''), (''b2'', VariableAlias ''T'')]"

definition brandAccent :: variable where
  "brandAccent =
     brandVariable ''D'' ''accent'' [(''b1'', ColorV 0 1 0 1), (''b2'', VariableAlias ''gone'')]"

definition tokensAccent :: variable where
  "tokensAccent =
     (brandVariable ''T'' ''accent''
        [(''t1'', ColorV 0 0 0 1), (''t2'', ColorV 1 1 1 1), (''t3'', ColorV 0 0 0 1)])
       \<lparr>v_variableCollectionId := ''Tokens''\<rparr>"

definition buttonNode :: node where
  "buttonNode =
     \<lparr>n_id = ''n1'', n_name = ''Button'', n_hasBoundVariables = True,
      n_hasSetBoundVariable = True, n_bound = [(''opacity'', SingleB (Some ''A''))],
      n_fills = Items [\<lparr>p_type = ''SOLID'', p_boundColor = Some ''B''\<rparr>,
                       \<lparr>p_type = ''SOLID'', p_boundColor = Some ''T''\<rparr>],
      n_strokes = Items [], n_effects = Mixed\<rparr>"

definition sliceNode :: node where
  "sliceNode =
     \<lparr>n_id = ''n2'', n_name = ''Slice'', n_hasBoundVariables = False,
      n_hasSetBoundVariable = False, n_bound = [], n_fills = Absent, n_strokes = Absent,
      n_effects = Absent\<rparr>"

definition exampleWorld :: world where
  "exampleWorld =
     \<lparr>w_collections = [brandCollection, tokensCollection],
      w_variables = [colorBase, colorAlias, brandAccent, tokensAccent],
      w_pages = [[buttonNode, sliceNode]],
      w_console = [], w_ui = []\<rparr>"

text \<open>
  The same document with a new, still empty variable \<open>S\<close> in \<open>Tokens\<close>, as phase 1
  leaves one.
\<close>

definition shell :: variable where
  "shell =
     \<lparr>v_id = ''S'', v_name = ''color-alias'', v_variableCollectionId = ''Tokens'',
      v_resolvedType = ''COLOR'', v_description = [], v_hiddenFromPublishing = False,
      v_scopes = [''ALL_SCOPES''], v_codeSyntax = [],
      v_valuesByMode = [(''t1'', ColorV 1 1 1 1), (''t2'', ColorV 1 1 1 1), (''t3'', ColorV 1 1 1 1)]\<rparr>"

definition shellWorld :: world where
  "shellWorld = exampleWorld\<lparr>w_variables := w_variables exampleWorld @ [shell]\<rparr>"

section \<open>Properties of the pure helpers\<close>

lemma findDuplicateNames_loop_filter:
  "findDuplicateNames_loop names vs dups can =
     \<lparr>duplicates = dups @ filter (\<lambda>v. v_name v \<in> names) vs,
      canMove = can @ filter (\<lambda>v. v_name v \<notin> names) vs\<rparr>"
  by (induction vs arbitrary: dups can) simp_all

lemma findDuplicateNames_filter:
  "duplicates (findDuplicateNames vs names) = filter (\<lambda>v. v_name v \<in> names) vs"
  "canMove (findDuplicateNames vs names) = filter (\<lambda>v. v_name v \<notin> names) vs"
  by (simp_all add: findDuplicateNames_def findDuplicateNames_loop_filter)

text \<open>
  C4. \<open>findDuplicateNames\<close> puts a candidate into \<open>duplicates\<close> exactly when its name is a
  member of the destination name set (membership of the very string: no case folding, no
  renaming) and into \<open>canMove\<close> otherwise; both outputs are the input filtered, so they keep
  the input order. Hence, when no candidate's name is in the set, every candidate is
  movable and none is blocked, and when every candidate's name is in the set, all of them
  are blocked.
\<close>

theorem findDuplicateNames_partition:
  "duplicates (findDuplicateNames cands names) = filter (\<lambda>v. v_name v \<in> names) cands
   \<and> canMove (findDuplicateNames cands names) = filter (\<lambda>v. v_name v \<notin> names) cands
   \<and> (\<forall>v. v \<in> set (duplicates (findDuplicateNames cands names))
          \<longleftrightarrow> v \<in> set cands \<and> v_name v \<in> names)
   \<and> (\<forall>v. v \<in> set (canMove (findDuplicateNames cands names))
          \<longleftrightarrow> v \<in> set cands \<and> v_name v \<notin> names)
   \<and> ((\<forall>v \<in> set cands. v_name v \<notin> names) \<longrightarrow>
        canMove (findDuplicateNames cands names) = cands
        \<and> duplicates (findDuplicateNames cands names) = [])
   \<and> ((\<forall>v \<in> set cands. v_name v \<in> names) \<longrightarrow>
        duplicates (findDuplicateNames cands names) = cands
        \<and> canMove (findDuplicateNames cands names) = [])"
  by (auto simp: findDuplicateNames_filter filter_id_conv filter_empty_conv)

theorem findDuplicateNames_partition_witness:
  "duplicates (findDuplicateNames
       [brandVariable ''1'' ''Primary'' [], brandVariable ''2'' ''primary'' [],
        brandVariable ''3'' ''accent'' []] {''primary''})
     = [brandVariable ''2'' ''primary'' []]
   \<and> canMove (findDuplicateNames
       [brandVariable ''1'' ''Primary'' [], brandVariable ''2'' ''primary'' [],
        brandVariable ''3'' ''accent'' []] {''primary''})
     = [brandVariable ''1'' ''Primary'' [], brandVariable ''3'' ''accent'' []]
   \<and> v_name (brandVariable ''1'' ''Primary'' []) \<notin> {''primary''}
   \<and> v_name (brandVariable ''3'' ''accent'' []) \<notin> {''primary''}
   \<and> canMove (findDuplicateNames
       [brandVariable ''1'' ''Primary'' [], brandVariable ''3'' ''accent'' []] {''primary''})
     = [brandVariable ''1'' ''Primary'' [], brandVariable ''3'' ''accent'' []]
   \<and> v_name (brandVariable ''2'' ''primary'' []) \<in> {''primary''}
   \<and> duplicates (findDuplicateNames [brandVariable ''2'' ''primary'' []] {''primary''})
     = [brandVariable ''2'' ''primary'' []]"
  using findDuplicateNames_partition
          [of "[brandVariable ''1'' ''Primary'' [], brandVariable ''2'' ''primary'' [],
                brandVariable ''3'' ''accent'' []]" "{''primary''}"]
        findDuplicateNames_partition
          [of "[brandVariable ''1'' ''Primary'' [], brandVariable ''3'' ''accent'' []]"
              "{''primary''}"]
        findDuplicateNames_partition [of "[brandVariable ''2'' ''primary'' []]" "{''primary''}"]
  by (simp add: brandVariable_def)

text \<open>
  C8. \<open>getDisplayTypeName\<close> sends the tag \<open>FLOAT\<close> to \<open>NUMBER\<close>, returns every other
  tag as it is, and applying it twice gives what applying it once gives.
\<close>

theorem getDisplayTypeName_idempotent:
  "getDisplayTypeName ''FLOAT'' = ''NUMBER''
   \<and> (t \<noteq> ''FLOAT'' \<longrightarrow> getDisplayTypeName t = t)
   \<and> getDisplayTypeName (getDisplayTypeName t) = getDisplayTypeName t"
  by (simp add: getDisplayTypeName_def)

theorem getDisplayTypeName_idempotent_witness:
  "''COLOR'' \<noteq> ''FLOAT'' \<and> getDisplayTypeName ''COLOR'' = ''COLOR''
   \<and> getDisplayTypeName (getDisplayTypeName ''FLOAT'') = ''NUMBER''"
  using getDisplayTypeName_idempotent [of "''COLOR''"] getDisplayTypeName_idempotent [of "''FLOAT''"]
  by (simp add: getDisplayTypeName_def)

section \<open>Properties of copyVariableValues\<close>

lemma onlyValues_refl: "onlyValues nv M w w"
  by (simp add: onlyValues_def)

lemma onlyValues_trans:
  "onlyValues nv M w w1 \<Longrightarrow> onlyValues nv M' w1 w2 \<Longrightarrow> onlyValues nv (M \<union> M') w w2"
  by (auto simp: onlyValues_def)

lemma onlyValues_mono: "onlyValues nv M w w' \<Longrightarrow> M \<subseteq> M' \<Longrightarrow> onlyValues nv M' w w'"
  by (auto simp: onlyValues_def)

lemma getVariable_console [simp]: "getVariable (console e w) i = getVariable w i"
  by (simp add: getVariable_def console_def)

lemma valueAt_console [simp]: "valueAt (console e w) i m = valueAt w i m"
  by (simp add: valueAt_def)

lemma onlyValues_console: "onlyValues nv M w w' \<Longrightarrow> onlyValues nv M w (console e w')"
  by (auto simp: onlyValues_def console_def getVariable_def valueAt_def)

lemma find_map_id:
  assumes "\<And>v. v_id (g v) = v_id v"
  shows "find (\<lambda>v. v_id v = j) (map g vs) = map_option g (find (\<lambda>v. v_id v = j) vs)"
  using assms by (induction vs) simp_all

lemma getVariable_updateVariable:
  assumes "\<And>v. v_id (f v) = v_id v"
  shows "getVariable (updateVariable i f w) j =
           (if j = i then map_option f (getVariable w j) else getVariable w j)"
proof -
  have id: "\<And>v. v_id (if v_id v = i then f v else v) = v_id v" using assms by simp
  have "getVariable (updateVariable i f w) j
        = map_option (\<lambda>v. if v_id v = i then f v else v) (getVariable w j)"
    unfolding getVariable_def updateVariable_def using find_map_id[OF id] by simp
  moreover have "\<And>v. getVariable w j = Some v \<Longrightarrow> v_id v = j"
    by (auto simp: getVariable_def find_Some_iff)
  ultimately show ?thesis by (cases "getVariable w j") auto
qed

lemma getVariable_id: "getVariable w j = Some v \<Longrightarrow> v_id v = j"
  by (auto simp: getVariable_def find_Some_iff)

lemma setValueForMode_effect:
  assumes "setValueForMode H w nv m x = Inr w'"
  shows "valueAt w' nv m = Some x \<and> onlyValues nv {m} w w' \<and> w_console w' = w_console w
         \<and> getVariable w nv \<noteq> None \<and> \<not> H w (SetValueForMode nv m x)"
proof -
  let ?f = "\<lambda>v. v\<lparr>v_valuesByMode := AList.update m x (v_valuesByMode v)\<rparr>"
  from assms have ex: "getVariable w nv \<noteq> None" and nh: "\<not> H w (SetValueForMode nv m x)"
    and w': "w' = updateVariable nv ?f w"
    by (auto simp: setValueForMode_def hostSet_def split: if_splits)
  have g: "\<And>j. getVariable w' j = (if j = nv then map_option ?f (getVariable w j) else getVariable w j)"
    unfolding w' by (rule getVariable_updateVariable) simp
  have ids: "map v_id (w_variables w') = map v_id (w_variables w)"
    unfolding w' updateVariable_def by (simp add: comp_def) 
  show ?thesis using ex nh ids
    by (auto simp: onlyValues_def valueAt_def g update_conv' split: option.splits)
       (simp_all add: w' updateVariable_def)
qed

lemma setValueForMode_accept:
  assumes "\<not> H w (SetValueForMode nv m x)" "getVariable w nv \<noteq> None"
  shows "\<exists>w'. setValueForMode H w nv m x = Inr w'"
  using assms by (simp add: setValueForMode_def hostSet_def)

lemma expectedWrite_onlyValues:
  "onlyValues nv M w w' \<Longrightarrow> expectedWrite w' idm x = expectedWrite w idm x"
  by (auto simp: expectedWrite_def onlyValues_def split: val.splits option.splits)

lemma copyValue_frame:
  assumes "copyValue H ov nv idm dm x w = (w', r)"
  shows "onlyValues nv {modeId dm} w w'"
  using assms
  by (auto simp: copyValue_def getVariableByIdAsync_def onlyValues_refl
           split: val.splits option.splits sum.splits if_splits
           dest!: setValueForMode_effect intro!: onlyValues_console)

lemma copyValue_accept:
  assumes acc: "\<And>m y. \<not> H w (SetValueForMode nv m y)"
      and ex: "getVariable w nv \<noteq> None"
      and getok: "\<And>R. x = VariableAlias R \<Longrightarrow> map_of idm R = None \<Longrightarrow> \<not> H w (GetVariableById R)"
      and run: "copyValue H ov nv idm dm x w = (w', r)"
  shows "r = Returns () \<and>
         valueAt w' nv (modeId dm) =
           (case expectedWrite w idm x of Some y \<Rightarrow> Some y | None \<Rightarrow> valueAt w nv (modeId dm))"
proof -
  have sv: "\<And>y. \<exists>w1. setValueForMode H w nv (modeId dm) y = Inr w1"
    using acc ex by (simp add: setValueForMode_accept)
  show ?thesis
  proof (cases x)
    case (VariableAlias R)
    show ?thesis
    proof (cases "map_of idm R")
      case (Some S)
      obtain w1 where w1: "setValueForMode H w nv (modeId dm) (VariableAlias S) = Inr w1"
        using sv by blast
      from setValueForMode_effect[OF w1] run w1 VariableAlias Some show ?thesis
        by (auto simp: copyValue_def expectedWrite_def)
    next
      case None
      have g: "getVariableByIdAsync H w R = Inr (getVariable w R)"
        using getok[OF VariableAlias None] by (simp add: getVariableByIdAsync_def)
      show ?thesis
      proof (cases "getVariable w R")
        case N: None
        with run VariableAlias None g show ?thesis
          by (auto simp: copyValue_def expectedWrite_def)
      next
        case (Some rv)
        then have rid: "v_id rv = R" by (rule getVariable_id)
        obtain w1 where w1: "setValueForMode H w nv (modeId dm) (VariableAlias R) = Inr w1"
          using sv by blast
        from setValueForMode_effect[OF w1] run w1 VariableAlias None g Some rid show ?thesis
          by (auto simp: copyValue_def expectedWrite_def)
      qed
    qed
  next
    case (BooleanV b)
    obtain w1 where w1: "setValueForMode H w nv (modeId dm) x = Inr w1" using sv by blast
    from setValueForMode_effect[OF w1] run w1 BooleanV show ?thesis
      by (auto simp: copyValue_def expectedWrite_def)
  next
    case (FloatV b)
    obtain w1 where w1: "setValueForMode H w nv (modeId dm) x = Inr w1" using sv by blast
    from setValueForMode_effect[OF w1] run w1 FloatV show ?thesis
      by (auto simp: copyValue_def expectedWrite_def)
  next
    case (StringV b)
    obtain w1 where w1: "setValueForMode H w nv (modeId dm) x = Inr w1" using sv by blast
    from setValueForMode_effect[OF w1] run w1 StringV show ?thesis
      by (auto simp: copyValue_def expectedWrite_def)
  next
    case (ColorV r g b a)
    obtain w1 where w1: "setValueForMode H w nv (modeId dm) x = Inr w1" using sv by blast
    from setValueForMode_effect[OF w1] run w1 ColorV show ?thesis
      by (auto simp: copyValue_def expectedWrite_def)
  qed
qed

lemma lookup_own_key:
  "i < length vals \<Longrightarrow> \<exists>x. map_of vals (map fst vals ! i) = Some x"
  by (metis domD dom_map_of_conv_image_fst length_map list.set_map nth_mem)

lemma loop_frame:
  "copyVariableValues_loop H ov nv idm i dms w = (w', r) \<Longrightarrow>
     onlyValues nv (modeId ` set dms) w w'"
proof (induction dms arbitrary: i w)
  case Nil
  then show ?case by (simp add: onlyValues_refl)
next
  case (Cons dm rest)
  show ?case
  proof (cases "i < length (v_valuesByMode ov)")
    case False
    with Cons.prems have "copyVariableValues_loop H ov nv idm (Suc i) rest w = (w', r)"
      by simp
    from Cons.IH[OF this] show ?thesis by (rule onlyValues_mono) auto
  next
    case True
    then obtain x where x: "map_of (v_valuesByMode ov) (map fst (v_valuesByMode ov) ! i) = Some x"
      using lookup_own_key by blast
    obtain w1 r1 where c: "copyValue H ov nv idm dm x w = (w1, r1)" by (cases "copyValue H ov nv idm dm x w")
    have f1: "onlyValues nv {modeId dm} w w1" using c by (rule copyValue_frame)
    show ?thesis
    proof (cases r1)
      case (Throws e)
      with Cons.prems True x c have "w' = w1" by simp
      with f1 show ?thesis by (auto intro: onlyValues_mono)
    next
      case (Returns u)
      with Cons.prems True x c
      have "copyVariableValues_loop H ov nv idm (Suc i) rest w1 = (w', r)" by simp
      from onlyValues_trans[OF f1 Cons.IH[OF this]] show ?thesis by simp
    qed
  qed
qed

lemma copyValue_returns:
  assumes acc: "\<And>m y. \<not> H w (SetValueForMode nv m y)"
      and ex: "getVariable w nv \<noteq> None"
  shows "\<exists>w'. copyValue H ov nv idm dm x w = (w', Returns ())"
proof -
  have sv: "\<And>y. \<exists>w1. setValueForMode H w nv (modeId dm) y = Inr w1"
    using acc ex by (simp add: setValueForMode_accept)
  show ?thesis
  proof (cases x)
    case (VariableAlias R)
    show ?thesis
    proof (cases "map_of idm R")
      case (Some S')
      with sv[of "VariableAlias S'"] VariableAlias show ?thesis
        by (auto simp: copyValue_def)
    next
      case None
      with VariableAlias show ?thesis
        by (auto simp: copyValue_def split: sum.splits option.splits)
    qed
  qed (use sv[of x] in \<open>auto simp: copyValue_def\<close>)
qed

lemma loop_returns:
  assumes acc: "\<And>w m y. \<not> H w (SetValueForMode nv m y)"
      and ex: "getVariable w nv \<noteq> None"
  shows "\<exists>w'. copyVariableValues_loop H ov nv idm i dms w = (w', Returns ())"
  using ex
proof (induction dms arbitrary: i w)
  case Nil
  then show ?case by simp
next
  case (Cons dm rest)
  show ?case
  proof (cases "i < length (v_valuesByMode ov)")
    case False
    with Cons.IH[OF Cons.prems] show ?thesis by simp
  next
    case True
    then obtain x where x: "map_of (v_valuesByMode ov) (map fst (v_valuesByMode ov) ! i) = Some x"
      using lookup_own_key by blast
    obtain w1 where c: "copyValue H ov nv idm dm x w = (w1, Returns ())"
      using copyValue_returns[of H w nv ov idm dm x] acc Cons.prems by blast
    from copyValue_frame[OF c] Cons.prems have "getVariable w1 nv \<noteq> None"
      by (simp add: onlyValues_def)
    from Cons.IH[OF this, of "Suc i"] True x c show ?thesis by simp
  qed
qed

lemma loop_position:
  assumes acc: "\<And>w m y. \<not> H w (SetValueForMode nv m y)"
      and getok: "\<And>R w. x = VariableAlias R \<Longrightarrow> map_of idm R = None \<Longrightarrow> \<not> H w (GetVariableById R)"
      and ex: "getVariable w nv \<noteq> None"
      and dist: "distinct (map modeId dms)"
      and j: "j < length dms"
      and paired: "i + j < length (v_valuesByMode ov)"
      and x: "map_of (v_valuesByMode ov) (map fst (v_valuesByMode ov) ! (i + j)) = Some x"
      and run: "copyVariableValues_loop H ov nv idm i dms w = (w', r)"
  shows "valueAt w' nv (modeId (dms ! j)) =
           (case expectedWrite w idm x of Some y \<Rightarrow> Some y
            | None \<Rightarrow> valueAt w nv (modeId (dms ! j)))"
  using ex dist j paired x run
proof (induction dms arbitrary: i j w)
  case Nil
  then show ?case by simp
next
  case (Cons dm rest)
  from Cons.prems have i: "i < length (v_valuesByMode ov)" by simp
  then obtain x0 where x0: "map_of (v_valuesByMode ov) (map fst (v_valuesByMode ov) ! i) = Some x0"
    using lookup_own_key by blast
  obtain w1 where c: "copyValue H ov nv idm dm x0 w = (w1, Returns ())"
    using copyValue_returns[of H w nv ov idm dm x0] acc Cons.prems(1) by blast
  have f1: "onlyValues nv {modeId dm} w w1" using c by (rule copyValue_frame)
  then have ex1: "getVariable w1 nv \<noteq> None" using Cons.prems(1) by (simp add: onlyValues_def)
  from Cons.prems i x0 c
  have rest: "copyVariableValues_loop H ov nv idm (Suc i) rest w1 = (w', r)" by simp
  have f2: "onlyValues nv (modeId ` set rest) w1 w'" using rest by (rule loop_frame)
  from Cons.prems(2) have notin: "modeId dm \<notin> modeId ` set rest" and dist': "distinct (map modeId rest)"
    by auto
  show ?case
  proof (cases j)
    case 0
    with Cons.prems x0 have "x0 = x" by simp
    with copyValue_accept[of H w nv x idm ov dm w1 "Returns ()"] acc Cons.prems(1) c getok
    have "valueAt w1 nv (modeId dm) =
           (case expectedWrite w idm x of Some y \<Rightarrow> Some y | None \<Rightarrow> valueAt w nv (modeId dm))"
      by blast
    moreover from f2 notin have "valueAt w' nv (modeId dm) = valueAt w1 nv (modeId dm)"
      by (simp add: onlyValues_def)
    ultimately show ?thesis unfolding 0 by (simp split: option.split)
  next
    case (Suc j')
    with Cons.prems have j': "j' < length rest" and p': "Suc i + j' < length (v_valuesByMode ov)"
      and x': "map_of (v_valuesByMode ov) (map fst (v_valuesByMode ov) ! (Suc i + j')) = Some x"
      by simp_all
    from Cons.IH[OF ex1 dist' j' p' x' rest]
    have "valueAt w' nv (modeId (rest ! j')) =
           (case expectedWrite w1 idm x of Some y \<Rightarrow> Some y
            | None \<Rightarrow> valueAt w1 nv (modeId (rest ! j')))" .
    moreover have "expectedWrite w1 idm x = expectedWrite w idm x"
      using f1 by (rule expectedWrite_onlyValues)
    moreover have "modeId (rest ! j') \<noteq> modeId dm" using notin j' by (metis imageI nth_mem)
    then have "valueAt w1 nv (modeId (rest ! j')) = valueAt w nv (modeId (rest ! j'))"
      using f1 by (simp add: onlyValues_def)
    ultimately show ?thesis unfolding Suc by (simp split: option.split)
  qed
qed

lemma loop_beyond:
  "length (v_valuesByMode ov) \<le> i \<Longrightarrow>
     copyVariableValues_loop H ov nv idm i dms w = (w, Returns ())"
  by (induction dms arbitrary: i) simp_all

lemma loop_unpaired:
  assumes dist: "distinct (map modeId dms)"
      and j: "j < length dms"
      and unpaired: "length (v_valuesByMode ov) \<le> i + j"
      and run: "copyVariableValues_loop H ov nv idm i dms w = (w', r)"
  shows "valueAt w' nv (modeId (dms ! j)) = valueAt w nv (modeId (dms ! j))"
  using dist j unpaired run
proof (induction dms arbitrary: i j w)
  case Nil
  then show ?case by simp
next
  case (Cons dm rest)
  from Cons.prems(1) have notin: "modeId dm \<notin> modeId ` set rest" and dist': "distinct (map modeId rest)"
    by auto
  show ?case
  proof (cases j)
    case 0
    with Cons.prems have "length (v_valuesByMode ov) \<le> i" by simp
    with Cons.prems(4) have "copyVariableValues_loop H ov nv idm (Suc i) rest w = (w', r)" by simp
    from loop_frame[OF this] notin 0 show ?thesis by (simp add: onlyValues_def)
  next
    case (Suc j')
    with Cons.prems have j': "j' < length rest" and u': "length (v_valuesByMode ov) \<le> Suc i + j'"
      by simp_all
    have ne: "modeId (rest ! j') \<noteq> modeId dm" using notin j' by (metis imageI nth_mem)
    show ?thesis
    proof (cases "i < length (v_valuesByMode ov)")
      case False
      with Cons.prems(4) have "copyVariableValues_loop H ov nv idm (Suc i) rest w = (w', r)" by simp
      from Cons.IH[OF dist' j' u' this] Suc show ?thesis by simp
    next
      case True
      then obtain x0 where x0: "map_of (v_valuesByMode ov) (map fst (v_valuesByMode ov) ! i) = Some x0"
        using lookup_own_key by blast
      obtain w1 r1 where c: "copyValue H ov nv idm dm x0 w = (w1, r1)"
        by (cases "copyValue H ov nv idm dm x0 w")
      have f1: "valueAt w1 nv (modeId (rest ! j')) = valueAt w nv (modeId (rest ! j'))"
        using copyValue_frame[OF c] ne by (simp add: onlyValues_def)
      show ?thesis
      proof (cases r1)
        case (Throws e)
        with Cons.prems(4) True x0 c have "w' = w1" by simp
        with f1 Suc show ?thesis by simp
      next
        case (Returns u)
        with Cons.prems(4) True x0 c
        have "copyVariableValues_loop H ov nv idm (Suc i) rest w1 = (w', r)" by simp
        from Cons.IH[OF dist' j' u' this] f1 Suc show ?thesis by simp
      qed
    qed
  qed
qed

lemma copyValue_name:
  "v_name ov' = v_name ov \<Longrightarrow> copyValue H ov' nv idm dm x w = copyValue H ov nv idm dm x w"
  by (simp add: copyValue_def split: val.splits option.splits sum.splits)

lemma loop_cong:
  assumes name: "v_name ov' = v_name ov"
      and same: "\<And>k. i \<le> k \<Longrightarrow> k < i + length dms \<Longrightarrow>
                   (k < length (v_valuesByMode ov')) = (k < length (v_valuesByMode ov))
                   \<and> (k < length (v_valuesByMode ov) \<longrightarrow>
                        map_of (v_valuesByMode ov') (fst (v_valuesByMode ov' ! k))
                        = map_of (v_valuesByMode ov) (fst (v_valuesByMode ov ! k)))"
  shows "copyVariableValues_loop H ov' nv idm i dms w = copyVariableValues_loop H ov nv idm i dms w"
  using same
proof (induction dms arbitrary: i w)
  case Nil
  then show ?case by simp
next
  case (Cons dm rest)
  have here: "(i < length (v_valuesByMode ov')) = (i < length (v_valuesByMode ov))"
    "i < length (v_valuesByMode ov) \<Longrightarrow>
       map_of (v_valuesByMode ov') (fst (v_valuesByMode ov' ! i))
       = map_of (v_valuesByMode ov) (fst (v_valuesByMode ov ! i))"
    using Cons.prems[of i] by simp_all
  have later: "\<And>w1. copyVariableValues_loop H ov' nv idm (Suc i) rest w1
                   = copyVariableValues_loop H ov nv idm (Suc i) rest w1"
    by (rule Cons.IH) (use Cons.prems in simp)
  show ?case
  proof (cases "i < length (v_valuesByMode ov)")
    case True
    with here later show ?thesis
      by (simp add: copyValue_name[OF name] Let_def split: option.split prod.split outcome.split)
  next
    case False
    with here later show ?thesis by simp
  qed
qed

lemma map_of_take_key:
  "i < n \<Longrightarrow> i < length vals \<Longrightarrow>
     map_of (take n vals) (fst (vals ! i)) = map_of vals (fst (vals ! i))"
proof (induction vals arbitrary: i n)
  case Nil
  then show ?case by simp
next
  case (Cons p ps)
  then obtain n' where n: "n = Suc n'" by (cases n) auto
  show ?case
  proof (cases i)
    case 0
    then show ?thesis using n by (cases p) simp
  next
    case (Suc i')
    with Cons n show ?thesis by (cases p) simp
  qed
qed

lemma map_of_rename_key:
  "inj f \<Longrightarrow> map_of (map (\<lambda>(k, v). (f k, v)) vals) (f k') = map_of vals k'"
  by (induction vals) (auto dest: injD)

lemma loop_truncate:
  "copyVariableValues_loop H
      (ov\<lparr>v_valuesByMode := take (i + length dms) (v_valuesByMode ov)\<rparr>) nv idm i dms w
   = copyVariableValues_loop H ov nv idm i dms w"
proof (rule loop_cong)
  fix k assume "i \<le> k" "k < i + length dms"
  then show "(k < length (v_valuesByMode (ov\<lparr>v_valuesByMode := take (i + length dms) (v_valuesByMode ov)\<rparr>)))
               = (k < length (v_valuesByMode ov))
           \<and> (k < length (v_valuesByMode ov) \<longrightarrow>
                map_of (v_valuesByMode (ov\<lparr>v_valuesByMode := take (i + length dms) (v_valuesByMode ov)\<rparr>))
                  (fst (v_valuesByMode (ov\<lparr>v_valuesByMode := take (i + length dms) (v_valuesByMode ov)\<rparr>) ! k))
                = map_of (v_valuesByMode ov) (fst (v_valuesByMode ov ! k)))"
    by (simp add: map_of_take_key)
qed simp

lemma loop_rename:
  assumes "inj f"
  shows "copyVariableValues_loop H
      (ov\<lparr>v_valuesByMode := map (\<lambda>(k, v). (f k, v)) (v_valuesByMode ov)\<rparr>) nv idm i dms w
   = copyVariableValues_loop H ov nv idm i dms w"
proof (rule loop_cong)
  fix k assume "i \<le> k" "k < i + length dms"
  have "\<And>k. k < length (v_valuesByMode ov) \<Longrightarrow>
          fst (map (\<lambda>(k, v). (f k, v)) (v_valuesByMode ov) ! k) = f (fst (v_valuesByMode ov ! k))"
    by (simp add: case_prod_beta)
  then show "(k < length (v_valuesByMode (ov\<lparr>v_valuesByMode := map (\<lambda>(k, v). (f k, v)) (v_valuesByMode ov)\<rparr>)))
               = (k < length (v_valuesByMode ov))
           \<and> (k < length (v_valuesByMode ov) \<longrightarrow>
                map_of (v_valuesByMode (ov\<lparr>v_valuesByMode := map (\<lambda>(k, v). (f k, v)) (v_valuesByMode ov)\<rparr>))
                  (fst (v_valuesByMode (ov\<lparr>v_valuesByMode := map (\<lambda>(k, v). (f k, v)) (v_valuesByMode ov)\<rparr>) ! k))
                = map_of (v_valuesByMode ov) (fst (v_valuesByMode ov ! k)))"
    using assms by (simp add: map_of_rename_key case_prod_beta)
qed simp

lemma copyValue_unmoved_returns:
  "map_of idm R = None \<Longrightarrow> snd (copyValue H ov nv idm dm (VariableAlias R) w) = Returns ()"
  by (simp add: copyValue_def split: sum.splits option.splits)

lemma loop_warn:
  assumes acc: "\<And>w m y. \<not> H w (SetValueForMode nv m y)"
      and getok: "\<And>w. \<not> H w (GetVariableById R)"
      and ex: "getVariable w nv \<noteq> None"
      and j: "j < length dms"
      and paired: "i + j < length (v_valuesByMode ov)"
      and x: "map_of (v_valuesByMode ov) (map fst (v_valuesByMode ov) ! (i + j)) = Some (VariableAlias R)"
      and unmoved: "map_of idm R = None"
      and gone: "getVariable w R = None"
      and run: "copyVariableValues_loop H ov nv idm i dms w = (w', r)"
  shows "\<exists>es. w_console w' = w_console w @ es
           \<and> ConsoleWarn [Str ''  Warning: Referenced variable not found for'', Str (v_name ov)]
                \<in> set es"
  using ex j paired x gone run
proof (induction dms arbitrary: i j w)
  case Nil
  then show ?case by simp
next
  case (Cons dm rest)
  from Cons.prems have i: "i < length (v_valuesByMode ov)" by simp
  then obtain x0 where x0: "map_of (v_valuesByMode ov) (map fst (v_valuesByMode ov) ! i) = Some x0"
    using lookup_own_key by blast
  obtain w1 where c: "copyValue H ov nv idm dm x0 w = (w1, Returns ())"
    using copyValue_returns[of H w nv ov idm dm x0] acc Cons.prems(1) by blast
  have f1: "onlyValues nv {modeId dm} w w1" using c by (rule copyValue_frame)
  then have ex1: "getVariable w1 nv \<noteq> None" and gone1: "getVariable w1 R = None"
    using Cons.prems(1,5) by (simp_all add: onlyValues_def)
  from f1 obtain es1 where es1: "w_console w1 = w_console w @ es1" by (auto simp: onlyValues_def)
  from Cons.prems i x0 c
  have rest: "copyVariableValues_loop H ov nv idm (Suc i) rest w1 = (w', r)" by simp
  from loop_frame[OF rest] obtain es2 where es2: "w_console w' = w_console w1 @ es2"
    by (auto simp: onlyValues_def)
  show ?case
  proof (cases j)
    case 0
    with Cons.prems x0 have "x0 = VariableAlias R" by simp
    with c unmoved getok Cons.prems(5)
    have "w1 = console (ConsoleWarn [Str ''  Warning: Referenced variable not found for'',
                                     Str (v_name ov)]) w"
      by (simp add: copyValue_def getVariableByIdAsync_def)
    then have "w_console w1 = w_console w @ [ConsoleWarn [Str ''  Warning: Referenced variable not found for'', Str (v_name ov)]]"
      by (simp add: console_def)
    with es2 show ?thesis by simp
  next
    case (Suc j')
    with Cons.prems have j': "j' < length rest" and p': "Suc i + j' < length (v_valuesByMode ov)"
      and x': "map_of (v_valuesByMode ov) (map fst (v_valuesByMode ov) ! (Suc i + j')) = Some (VariableAlias R)"
      by simp_all
    from Cons.IH[OF ex1 j' p' x' gone1 rest] obtain es where
      "w_console w' = w_console w1 @ es"
      "ConsoleWarn [Str ''  Warning: Referenced variable not found for'', Str (v_name ov)] \<in> set es"
      by blast
    with es1 show ?thesis by simp
  qed
qed

lemma accepting_all:
  "\<And>w m y. \<not> accepting w (SetValueForMode nv m y)" "\<And>w. \<not> accepting w (GetVariableById R)"
  by (simp_all add: accepting_def)

text \<open>
  C2. \<open>copyVariableValues\<close> walks the modes of the destination collection in order and
  pairs the mode at index \<open>i\<close> with the value found under the \<open>i\<close>-th key of the
  original's \<open>valuesByMode\<close> (for an object, whose keys are distinct, the value of its
  \<open>i\<close>-th entry). With mode identities distinct within the destination collection:
  when the host refuses no write to the new variable, the value at the destination mode
  \<open>i\<close> is afterwards what \<open>copyValue\<close> writes for that original value; a destination
  mode whose index is not below the number of original values keeps the value it had, as
  does every mode that is not one of the destination's; the original values from
  the number of destination modes on are never read (cutting them off changes nothing);
  and the pairing does not look at the original's mode identities (renaming them
  one-to-one changes nothing).
\<close>

theorem copyVariableValues_positional:
  assumes dist: "distinct (map modeId (c_modes dest))"
      and run: "copyVariableValues H w ov nv dest idm = (w', r)"
  shows "(\<forall>i x. i < length (c_modes dest) \<and> i < length (v_valuesByMode ov)
            \<and> map_of (v_valuesByMode ov) (map fst (v_valuesByMode ov) ! i) = Some x
            \<and> (\<forall>w m y. \<not> H w (SetValueForMode nv m y))
            \<and> (\<forall>R w. x = VariableAlias R \<longrightarrow> map_of idm R = None \<longrightarrow> \<not> H w (GetVariableById R))
            \<and> getVariable w nv \<noteq> None
          \<longrightarrow> valueAt w' nv (modeId (c_modes dest ! i)) =
                (case expectedWrite w idm x of Some y \<Rightarrow> Some y
                 | None \<Rightarrow> valueAt w nv (modeId (c_modes dest ! i))))
       \<and> (\<forall>i. i < length (v_valuesByMode ov) \<and> distinct (map fst (v_valuesByMode ov))
          \<longrightarrow> map_of (v_valuesByMode ov) (map fst (v_valuesByMode ov) ! i)
                = Some (snd (v_valuesByMode ov ! i)))
       \<and> (\<forall>i. i < length (c_modes dest) \<and> length (v_valuesByMode ov) \<le> i
          \<longrightarrow> valueAt w' nv (modeId (c_modes dest ! i)) = valueAt w nv (modeId (c_modes dest ! i)))
       \<and> (\<forall>m. m \<notin> modeId ` set (c_modes dest) \<longrightarrow> valueAt w' nv m = valueAt w nv m)
       \<and> copyVariableValues H w
            (ov\<lparr>v_valuesByMode := take (length (c_modes dest)) (v_valuesByMode ov)\<rparr>) nv dest idm
          = (w', r)
       \<and> (\<forall>f. inj f \<longrightarrow>
            copyVariableValues H w
              (ov\<lparr>v_valuesByMode := map (\<lambda>(k, v). (f k, v)) (v_valuesByMode ov)\<rparr>) nv dest idm
            = (w', r))"
proof (intro conjI allI impI)
  fix i x
  assume a: "i < length (c_modes dest) \<and> i < length (v_valuesByMode ov)
            \<and> map_of (v_valuesByMode ov) (map fst (v_valuesByMode ov) ! i) = Some x
            \<and> (\<forall>w m y. \<not> H w (SetValueForMode nv m y))
            \<and> (\<forall>R w. x = VariableAlias R \<longrightarrow> map_of idm R = None \<longrightarrow> \<not> H w (GetVariableById R))
            \<and> getVariable w nv \<noteq> None"
  have "valueAt w' nv (modeId (c_modes dest ! i)) =
           (case expectedWrite w idm x of Some y \<Rightarrow> Some y
            | None \<Rightarrow> valueAt w nv (modeId (c_modes dest ! i)))"
  proof (rule loop_position[where i = 0 and j = i and H = H and ov = ov and r = r])
    show "copyVariableValues_loop H ov nv idm 0 (c_modes dest) w = (w', r)"
      using run by (simp add: copyVariableValues_def)
  qed (use a dist in auto)
  then show "valueAt w' nv (modeId (c_modes dest ! i)) =
                (case expectedWrite w idm x of Some y \<Rightarrow> Some y
                 | None \<Rightarrow> valueAt w nv (modeId (c_modes dest ! i)))" .
next
  fix i assume "i < length (v_valuesByMode ov) \<and> distinct (map fst (v_valuesByMode ov))"
  then show "map_of (v_valuesByMode ov) (map fst (v_valuesByMode ov) ! i)
                = Some (snd (v_valuesByMode ov ! i))"
    by (simp add: map_of_eq_Some_iff)
next
  fix i assume a: "i < length (c_modes dest) \<and> length (v_valuesByMode ov) \<le> i"
  show "valueAt w' nv (modeId (c_modes dest ! i)) = valueAt w nv (modeId (c_modes dest ! i))"
  proof (rule loop_unpaired[where i = 0 and j = i and H = H and ov = ov and r = r and idm = idm])
    show "copyVariableValues_loop H ov nv idm 0 (c_modes dest) w = (w', r)"
      using run by (simp add: copyVariableValues_def)
  qed (use a dist in auto)
next
  fix m assume "m \<notin> modeId ` set (c_modes dest)"
  moreover have "onlyValues nv (modeId ` set (c_modes dest)) w w'"
    using run unfolding copyVariableValues_def by (rule loop_frame)
  ultimately show "valueAt w' nv m = valueAt w nv m" by (simp add: onlyValues_def)
next
  show "copyVariableValues H w
            (ov\<lparr>v_valuesByMode := take (length (c_modes dest)) (v_valuesByMode ov)\<rparr>) nv dest idm
          = (w', r)"
    using loop_truncate[where H = H and ov = ov and nv = nv and idm = idm and i = 0
                          and dms = "c_modes dest" and w = w] run
    by (simp add: copyVariableValues_def)
next
  fix f :: "string \<Rightarrow> string" assume "inj f"
  from loop_rename[OF this, where H = H and ov = ov and nv = nv and idm = idm and i = 0
                     and dms = "c_modes dest" and w = w] run
  show "copyVariableValues H w
              (ov\<lparr>v_valuesByMode := map (\<lambda>(k, v). (f k, v)) (v_valuesByMode ov)\<rparr>) nv dest idm
            = (w', r)"
    by (simp add: copyVariableValues_def)
qed

theorem copyVariableValues_positional_witness:
  "distinct (map modeId (c_modes tokensCollection))
   \<and> map_of (v_valuesByMode colorAlias) (map fst (v_valuesByMode colorAlias) ! 0)
       = Some (VariableAlias ''A'')
   \<and> getVariable shellWorld ''S'' \<noteq> None
   \<and> length (v_valuesByMode colorAlias) = 2 \<and> length (c_modes tokensCollection) = 3
   \<and> valueAt (fst (copyVariableValues accepting shellWorld colorAlias ''S'' tokensCollection
                     [(''A'', ''SA'')])) ''S'' ''t1'' = Some (VariableAlias ''SA'')
   \<and> valueAt (fst (copyVariableValues accepting shellWorld colorAlias ''S'' tokensCollection
                     [(''A'', ''SA'')])) ''S'' ''t3'' = Some (ColorV 1 1 1 1)
   \<and> copyVariableValues accepting shellWorld
        (colorAlias\<lparr>v_valuesByMode := take 3 (v_valuesByMode colorAlias)\<rparr>) ''S'' tokensCollection
        [(''A'', ''SA'')]
      = copyVariableValues accepting shellWorld colorAlias ''S'' tokensCollection [(''A'', ''SA'')]"
proof -
  let ?run = "copyVariableValues accepting shellWorld colorAlias ''S'' tokensCollection [(''A'', ''SA'')]"
  have dist: "distinct (map modeId (c_modes tokensCollection))" by code_simp
  have run: "?run = (fst ?run, snd ?run)" by simp
  note T = copyVariableValues_positional[OF dist run]
  have h: "0 < length (c_modes tokensCollection)" "0 < length (v_valuesByMode colorAlias)"
    "map_of (v_valuesByMode colorAlias) (map fst (v_valuesByMode colorAlias) ! 0)
       = Some (VariableAlias ''A'')"
    "getVariable shellWorld ''S'' \<noteq> None"
    "length (v_valuesByMode colorAlias) = 2" "length (c_modes tokensCollection) = 3"
    by code_simp+
  have e: "modeId (c_modes tokensCollection ! 0) = ''t1''"
    "modeId (c_modes tokensCollection ! 2) = ''t3''"
    "expectedWrite shellWorld [(''A'', ''SA'')] (VariableAlias ''A'') = Some (VariableAlias ''SA'')"
    "valueAt shellWorld ''S'' ''t3'' = Some (ColorV 1 1 1 1)"
    by code_simp+
  have "valueAt (fst ?run) ''S'' (modeId (c_modes tokensCollection ! 0)) =
          (case expectedWrite shellWorld [(''A'', ''SA'')] (VariableAlias ''A'') of
             Some y \<Rightarrow> Some y
           | None \<Rightarrow> valueAt shellWorld ''S'' (modeId (c_modes tokensCollection ! 0)))"
    by (rule T[THEN conjunct1, rule_format, of 0 "VariableAlias ''A''"])
       (use h accepting_all in blast)
  then have c0: "valueAt (fst ?run) ''S'' ''t1'' = Some (VariableAlias ''SA'')"
    unfolding e by simp
  have "valueAt (fst ?run) ''S'' (modeId (c_modes tokensCollection ! 2))
          = valueAt shellWorld ''S'' (modeId (c_modes tokensCollection ! 2))"
    by (rule T[THEN conjunct2, THEN conjunct2, THEN conjunct1, rule_format, of 2])
       (use h in simp)
  then have c2: "valueAt (fst ?run) ''S'' ''t3'' = Some (ColorV 1 1 1 1)"
    unfolding e by simp
  have c3: "copyVariableValues accepting shellWorld
        (colorAlias\<lparr>v_valuesByMode := take 3 (v_valuesByMode colorAlias)\<rparr>) ''S'' tokensCollection
        [(''A'', ''SA'')] = ?run"
    using T[THEN conjunct2, THEN conjunct2, THEN conjunct2, THEN conjunct2, THEN conjunct1]
    unfolding h by simp
  show ?thesis using dist h c0 c2 c3 by simp
qed

text \<open>
  C6. Let the original value paired with destination mode \<open>i\<close> be an alias to a variable
  \<open>R\<close> that has no entry in \<open>idMapping\<close>, and let the host refuse neither the lookup
  of \<open>R\<close> nor a write to the new variable. If \<open>R\<close> is in the document, the new
  variable's value at that mode becomes an alias to \<open>R\<close> itself, and \<open>R\<close> is left as it
  was. If \<open>R\<close> is not in the document, the value at that mode stays what it was (the
  default of the type for a fresh variable) and a warning is written to the console. In
  both cases the copy returns normally: this step never throws, whatever the host does;
  the other paired modes get their values; and phase 2 counts the variable as copied, not
  as failed.
\<close>

theorem copyVariableValues_unmoved_alias:
  assumes dist: "distinct (map modeId (c_modes dest))"
      and i: "i < length (c_modes dest)" "i < length (v_valuesByMode ov)"
      and x: "map_of (v_valuesByMode ov) (map fst (v_valuesByMode ov) ! i) = Some (VariableAlias R)"
      and unmoved: "map_of idm R = None"
      and acc: "\<And>w m y. \<not> H w (SetValueForMode nv m y)"
      and getok: "\<And>w. \<not> H w (GetVariableById R)"
      and ex: "getVariable w nv \<noteq> None"
      and run: "copyVariableValues H w ov nv dest idm = (w', r)"
  shows "r = Returns ()
       \<and> (getVariable w R \<noteq> None \<longrightarrow>
             valueAt w' nv (modeId (c_modes dest ! i)) = Some (VariableAlias R))
       \<and> (getVariable w R = None \<longrightarrow>
             valueAt w' nv (modeId (c_modes dest ! i)) = valueAt w nv (modeId (c_modes dest ! i))
             \<and> (\<exists>es. w_console w' = w_console w @ es
                  \<and> ConsoleWarn [Str ''  Warning: Referenced variable not found for'',
                                  Str (v_name ov)] \<in> set es))
       \<and> (R \<noteq> nv \<longrightarrow> getVariable w' R = getVariable w R)
       \<and> (\<forall>H' w0 dm. snd (copyValue H' ov nv idm dm (VariableAlias R) w0) = Returns ())
       \<and> (\<forall>j y. j < length (c_modes dest) \<and> j < length (v_valuesByMode ov)
             \<and> map_of (v_valuesByMode ov) (map fst (v_valuesByMode ov) ! j) = Some y
             \<and> (\<forall>R' w. y = VariableAlias R' \<longrightarrow> map_of idm R' = None \<longrightarrow> \<not> H w (GetVariableById R'))
           \<longrightarrow> valueAt w' nv (modeId (c_modes dest ! j)) =
                 (case expectedWrite w idm y of Some z \<Rightarrow> Some z
                  | None \<Rightarrow> valueAt w nv (modeId (c_modes dest ! j))))
       \<and> (\<forall>a b. map_of idm (v_id ov) = Some nv \<longrightarrow>
             phase2 H dest idm [ov] (w, a, b)
               = (console (ConsoleLog [Str ''  Copied values:'', Str (v_name ov)]) w', Suc a, b))"
proof -
  have loop: "copyVariableValues_loop H ov nv idm 0 (c_modes dest) w = (w', r)"
    using run by (simp add: copyVariableValues_def)
  have r: "r = Returns ()"
    using loop_returns[of H nv w ov idm 0 "c_modes dest"] acc ex loop by auto
  have pos: "\<And>j y. j < length (c_modes dest) \<Longrightarrow> j < length (v_valuesByMode ov) \<Longrightarrow>
               map_of (v_valuesByMode ov) (map fst (v_valuesByMode ov) ! j) = Some y \<Longrightarrow>
               (\<And>R' w. y = VariableAlias R' \<Longrightarrow> map_of idm R' = None \<Longrightarrow> \<not> H w (GetVariableById R')) \<Longrightarrow>
               valueAt w' nv (modeId (c_modes dest ! j)) =
                 (case expectedWrite w idm y of Some z \<Rightarrow> Some z
                  | None \<Rightarrow> valueAt w nv (modeId (c_modes dest ! j)))"
  proof -
    fix j y
    assume j: "j < length (c_modes dest)" "j < length (v_valuesByMode ov)"
      and y: "map_of (v_valuesByMode ov) (map fst (v_valuesByMode ov) ! j) = Some y"
      and g: "\<And>R' w. y = VariableAlias R' \<Longrightarrow> map_of idm R' = None \<Longrightarrow> \<not> H w (GetVariableById R')"
    show "valueAt w' nv (modeId (c_modes dest ! j)) =
                 (case expectedWrite w idm y of Some z \<Rightarrow> Some z
                  | None \<Rightarrow> valueAt w nv (modeId (c_modes dest ! j)))"
      by (rule loop_position[where i = 0 and j = j and H = H and ov = ov and r = r])
         (use acc g ex dist j y loop in simp_all)
  qed
  have here: "valueAt w' nv (modeId (c_modes dest ! i)) =
                 (case expectedWrite w idm (VariableAlias R) of Some z \<Rightarrow> Some z
                  | None \<Rightarrow> valueAt w nv (modeId (c_modes dest ! i)))"
    by (rule pos[OF i x]) (use getok in simp)
  have warn: "getVariable w R = None \<Longrightarrow>
          \<exists>es. w_console w' = w_console w @ es
                  \<and> ConsoleWarn [Str ''  Warning: Referenced variable not found for'',
                                  Str (v_name ov)] \<in> set es"
    by (rule loop_warn[where i = 0 and j = i and H = H and R = R and nv = nv and idm = idm and r = r and dms = "c_modes dest"])
       (use acc getok ex i x unmoved loop in simp_all)
  have frame: "onlyValues nv (modeId ` set (c_modes dest)) w w'"
    using loop by (rule loop_frame)
  show ?thesis
  proof (intro conjI allI impI)
    show "r = Returns ()" by (rule r)
    show "valueAt w' nv (modeId (c_modes dest ! i)) = Some (VariableAlias R)"
      if "getVariable w R \<noteq> None"
      using here that unmoved by (simp add: expectedWrite_def)
    show "valueAt w' nv (modeId (c_modes dest ! i)) = valueAt w nv (modeId (c_modes dest ! i))"
      if "getVariable w R = None"
      using here that unmoved by (simp add: expectedWrite_def)
    show "\<exists>es. w_console w' = w_console w @ es
                  \<and> ConsoleWarn [Str ''  Warning: Referenced variable not found for'',
                                  Str (v_name ov)] \<in> set es"
      if "getVariable w R = None" using warn that by blast
    show "getVariable w' R = getVariable w R" if "R \<noteq> nv"
      using frame that by (simp add: onlyValues_def)
    show "snd (copyValue H' ov nv idm dm (VariableAlias R) w0) = Returns ()" for H' w0 dm
      using unmoved by (rule copyValue_unmoved_returns)
    show "valueAt w' nv (modeId (c_modes dest ! j)) =
                 (case expectedWrite w idm y of Some z \<Rightarrow> Some z
                  | None \<Rightarrow> valueAt w nv (modeId (c_modes dest ! j)))"
      if "j < length (c_modes dest) \<and> j < length (v_valuesByMode ov)
             \<and> map_of (v_valuesByMode ov) (map fst (v_valuesByMode ov) ! j) = Some y
             \<and> (\<forall>R' w. y = VariableAlias R' \<longrightarrow> map_of idm R' = None \<longrightarrow> \<not> H w (GetVariableById R'))"
      for j y
      using that by (intro pos) auto
    show "phase2 H dest idm [ov] (w, a, b)
               = (console (ConsoleLog [Str ''  Copied values:'', Str (v_name ov)]) w', Suc a, b)"
      if "map_of idm (v_id ov) = Some nv" for a b
      using that run r by simp
  qed
qed

theorem copyVariableValues_unmoved_alias_witness:
  "distinct (map modeId (c_modes tokensCollection))
   \<and> map_of (v_valuesByMode colorAlias) (map fst (v_valuesByMode colorAlias) ! 1)
       = Some (VariableAlias ''T'')
   \<and> map_of (v_valuesByMode brandAccent) (map fst (v_valuesByMode brandAccent) ! 1)
       = Some (VariableAlias ''gone'')
   \<and> map_of [(''A'', ''SA'')] ''T'' = None \<and> map_of [(''A'', ''SA'')] ''gone'' = None
   \<and> getVariable shellWorld ''S'' \<noteq> None
   \<and> getVariable shellWorld ''T'' \<noteq> None \<and> getVariable shellWorld ''gone'' = None
   \<and> snd (copyVariableValues accepting shellWorld colorAlias ''S'' tokensCollection
             [(''A'', ''SA'')]) = Returns ()
   \<and> valueAt (fst (copyVariableValues accepting shellWorld colorAlias ''S'' tokensCollection
                     [(''A'', ''SA'')])) ''S'' ''t2'' = Some (VariableAlias ''T'')
   \<and> snd (copyVariableValues accepting shellWorld brandAccent ''S'' tokensCollection
             [(''A'', ''SA'')]) = Returns ()
   \<and> valueAt (fst (copyVariableValues accepting shellWorld brandAccent ''S'' tokensCollection
                     [(''A'', ''SA'')])) ''S'' ''t2'' = Some (ColorV 1 1 1 1)
   \<and> ConsoleWarn [Str ''  Warning: Referenced variable not found for'', Str ''accent'']
       \<in> set (w_console (fst (copyVariableValues accepting shellWorld brandAccent ''S''
                                 tokensCollection [(''A'', ''SA'')])))"
proof -
  let ?idm = "[(''A'', ''SA'')]"
  let ?run1 = "copyVariableValues accepting shellWorld colorAlias ''S'' tokensCollection ?idm"
  let ?run2 = "copyVariableValues accepting shellWorld brandAccent ''S'' tokensCollection ?idm"
  have dist: "distinct (map modeId (c_modes tokensCollection))" by code_simp
  have i1: "1 < length (c_modes tokensCollection)" "1 < length (v_valuesByMode colorAlias)"
    "1 < length (v_valuesByMode brandAccent)"
    by code_simp+
  have x1: "map_of (v_valuesByMode colorAlias) (map fst (v_valuesByMode colorAlias) ! 1)
       = Some (VariableAlias ''T'')"
    and x2: "map_of (v_valuesByMode brandAccent) (map fst (v_valuesByMode brandAccent) ! 1)
       = Some (VariableAlias ''gone'')"
    and u1: "map_of ?idm ''T'' = None" and u2: "map_of ?idm ''gone'' = None"
    and ex: "getVariable shellWorld ''S'' \<noteq> None"
    and there: "getVariable shellWorld ''T'' \<noteq> None"
    and gone: "getVariable shellWorld ''gone'' = None"
    by code_simp+
  have e: "modeId (c_modes tokensCollection ! 1) = ''t2''"
    "valueAt shellWorld ''S'' ''t2'' = Some (ColorV 1 1 1 1)"
    "w_console shellWorld = []" "v_name brandAccent = ''accent''"
    by code_simp+
  have run1: "?run1 = (fst ?run1, snd ?run1)" and run2: "?run2 = (fst ?run2, snd ?run2)"
    by simp_all
  note T1 = copyVariableValues_unmoved_alias[OF dist i1(1) i1(2) x1 u1 accepting_all ex run1]
  note T2 = copyVariableValues_unmoved_alias[OF dist i1(1) i1(3) x2 u2 accepting_all ex run2]
  have a1: "snd ?run1 = Returns ()" using T1 by blast
  have a2: "valueAt (fst ?run1) ''S'' ''t2'' = Some (VariableAlias ''T'')"
    using T1[THEN conjunct2, THEN conjunct1] there unfolding e by blast
  have b1: "snd ?run2 = Returns ()" using T2 by blast
  have b2: "valueAt (fst ?run2) ''S'' ''t2'' = Some (ColorV 1 1 1 1)"
    using T2[THEN conjunct2, THEN conjunct2, THEN conjunct1] gone unfolding e by simp
  have b3: "ConsoleWarn [Str ''  Warning: Referenced variable not found for'', Str ''accent'']
       \<in> set (w_console (fst ?run2))"
    using T2[THEN conjunct2, THEN conjunct2, THEN conjunct1] gone unfolding e by auto
  show ?thesis using dist x1 x2 u1 u2 ex there gone a1 a2 b1 b2 b3 by blast
qed

section \<open>Properties of rebindVariable\<close>

lemma withItems_simps:
  "withItems ''fills'' = (\<lambda>xs m. m\<lparr>n_fills := Items xs\<rparr>)"
  "withItems ''strokes'' = (\<lambda>xs m. m\<lparr>n_strokes := Items xs\<rparr>)"
  "withItems ''effects'' = (\<lambda>xs m. m\<lparr>n_effects := Items xs\<rparr>)"
  by (simp_all add: withItems_def fun_eq_iff)

lemma body_array:
  assumes "getNode w nodeId = Some n" 
  shows "rebindVariable_body H w nodeId property nv idx True =
     (if nodeItems property n = Absent then (w, Returns False)
      else rebindItems H w (bindCallOf property) (assignCallOf property nodeId) nodeId (withItems property) (nodeItems property n) nv idx)"
proof -
  consider "property = ''fills''" | "property = ''strokes''" | "property = ''effects''"
    | "property \<noteq> ''fills''" "property \<noteq> ''strokes''" "property \<noteq> ''effects''" by blast
  then show ?thesis
  proof cases
    case 1 then show ?thesis using assms
      by (simp add: rebindVariable_body_def nodeItems_def withItems_simps bindCallOf_def assignCallOf_def)
  next
    case 2 then show ?thesis using assms
      by (simp add: rebindVariable_body_def nodeItems_def withItems_simps bindCallOf_def assignCallOf_def)
  next
    case 3 then show ?thesis using assms
      by (simp add: rebindVariable_body_def nodeItems_def withItems_simps bindCallOf_def assignCallOf_def)
  next
    case 4 then show ?thesis using assms
      by (simp add: rebindVariable_body_def nodeItems_def)
  qed
qed

lemma rebindItems_throws_same:
  "rebindItems H w bc ac nodeId f cur nv idx = (w', Throws e) \<Longrightarrow> w' = w"
  by (auto simp: rebindItems_def Let_def split: paints.splits if_splits sum.splits)

lemma body_throws_same:
  "rebindVariable_body H w nodeId property nv idx arr = (w', Throws e) \<Longrightarrow> w' = w"
  by (auto simp: rebindVariable_body_def split: option.splits if_splits sum.splits dest: rebindItems_throws_same)

lemma rebindVariable_cases:
  "rebindVariable H w nodeId p nv idx arr =
    (case rebindVariable_body H w nodeId p nv idx arr of
        (w', Returns b) \<Rightarrow> (w', b)
      | (w', Throws e) \<Rightarrow>
          (console (ConsoleError [Str ''Failed to rebind variable:'', Str p, Err e]) w, False))"
  by (auto simp: rebindVariable_def split: prod.splits outcome.splits dest: body_throws_same)

lemma rebindItems_False:
  "rebindItems H w bc ac nodeId f cur nv idx = (w', Returns False) \<Longrightarrow> w' = w"
  by (auto simp: rebindItems_def Let_def split: paints.splits if_splits sum.splits)

lemma body_False:
  "rebindVariable_body H w nodeId property nv idx arr = (w', Returns False) \<Longrightarrow> w' = w"
  by (auto simp: rebindVariable_body_def split: option.splits if_splits sum.splits dest: rebindItems_False)

lemma rebindItems_True:
  "rebindItems H w bc ac nodeId f cur nv idx = (w', Returns True) \<Longrightarrow>
     \<exists>xs k. cur = Items xs \<and> idx = Some k \<and> k < length xs
        \<and> w' = updateNode nodeId (f (xs[k := (xs ! k)\<lparr>p_boundColor := Some nv\<rparr>])) w"
  by (auto simp: rebindItems_def bindItem_def hostNode_def Let_def split: paints.splits if_splits sum.splits option.splits)

text \<open>
  C7. \<open>rebindVariable\<close> always returns a boolean together with the new state; an exception
  in its body becomes \<open>false\<close> and one error line on the console, the document being as
  before. For a node that is in the document: a single binding returns \<open>false\<close> when the
  node has no \<open>setBoundVariable\<close>, and is rebound when it has one and the host accepts;
  an array binding returns \<open>false\<close> for a property other than \<open>fills\<close>, \<open>strokes\<close> and
  \<open>effects\<close>, when the property is missing from the node or is not an array, and when the
  index is not below its length, all without a change; otherwise, the host accepting the
  two calls, the node gets the whole list back with the one item at the index rebound,
  and only so does an array binding return \<open>true\<close>. The source list itself is never
  changed: the node changes only through the assignment of the new list.
\<close>

theorem rebindVariable_total:
  "(\<exists>w' b. rebindVariable H w nodeId p nv idx arr = (w', b)
       \<and> (\<not> b \<longrightarrow> w' = w \<or> (\<exists>e. w' = console (ConsoleError [Str ''Failed to rebind variable:'', Str p, Err e]) w)))
   \<and> (\<forall>w1 e. rebindVariable_body H w nodeId p nv idx arr = (w1, Throws e) \<longrightarrow>
         rebindVariable H w nodeId p nv idx arr
           = (console (ConsoleError [Str ''Failed to rebind variable:'', Str p, Err e]) w, False))
   \<and> (\<forall>n. getNode w nodeId = Some n \<longrightarrow>
        (\<not> arr \<and> \<not> n_hasSetBoundVariable n \<longrightarrow>
           rebindVariable H w nodeId p nv idx arr = (w, False))
      \<and> (\<not> arr \<and> n_hasSetBoundVariable n \<and> \<not> H w (SetBoundVariable nodeId p nv) \<longrightarrow>
           rebindVariable H w nodeId p nv idx arr
             = (updateNode nodeId
                  (\<lambda>m. m\<lparr>n_bound := AList.update p (SingleB (Some nv)) (n_bound m)\<rparr>) w, True))
      \<and> (arr \<and> p \<notin> {''fills'', ''strokes'', ''effects''} \<longrightarrow>
           rebindVariable H w nodeId p nv idx arr = (w, False))
      \<and> (arr \<and> (nodeItems p n = Absent \<or> nodeItems p n = Mixed) \<longrightarrow>
           rebindVariable H w nodeId p nv idx arr = (w, False))
      \<and> (\<forall>xs k. arr \<and> nodeItems p n = Items xs \<and> idx = Some k \<and> length xs \<le> k \<longrightarrow>
           rebindVariable H w nodeId p nv idx arr = (w, False))
      \<and> (\<forall>xs k. arr \<and> nodeItems p n = Items xs \<and> idx = Some k \<and> k < length xs
            \<and> \<not> H w (bindCallOf p (Some (xs ! k)) nv)
            \<and> \<not> H w (assignCallOf p nodeId (xs[k := (xs ! k)\<lparr>p_boundColor := Some nv\<rparr>])) \<longrightarrow>
           rebindVariable H w nodeId p nv idx arr
             = (updateNode nodeId (withItems p (xs[k := (xs ! k)\<lparr>p_boundColor := Some nv\<rparr>])) w,
                True))
      \<and> (\<forall>w'. arr \<and> rebindVariable H w nodeId p nv idx arr = (w', True) \<longrightarrow>
           (\<exists>xs k. nodeItems p n = Items xs \<and> idx = Some k \<and> k < length xs
              \<and> w' = updateNode nodeId
                        (withItems p (xs[k := (xs ! k)\<lparr>p_boundColor := Some nv\<rparr>])) w)))"
proof (intro conjI allI impI)
  show "\<exists>w' b. rebindVariable H w nodeId p nv idx arr = (w', b)
       \<and> (\<not> b \<longrightarrow> w' = w \<or> (\<exists>e. w' = console (ConsoleError [Str ''Failed to rebind variable:'', Str p, Err e]) w))"
    by (auto simp: rebindVariable_cases split: prod.splits outcome.splits dest: body_False)
next
  fix w1 e assume "rebindVariable_body H w nodeId p nv idx arr = (w1, Throws e)"
  then show "rebindVariable H w nodeId p nv idx arr
           = (console (ConsoleError [Str ''Failed to rebind variable:'', Str p, Err e]) w, False)"
    by (simp add: rebindVariable_cases)
next
  fix n assume "getNode w nodeId = Some n" "\<not> arr \<and> \<not> n_hasSetBoundVariable n"
  then show "rebindVariable H w nodeId p nv idx arr = (w, False)"
    by (simp add: rebindVariable_def rebindVariable_body_def)
next
  fix n assume "getNode w nodeId = Some n"
     "\<not> arr \<and> n_hasSetBoundVariable n \<and> \<not> H w (SetBoundVariable nodeId p nv)"
  then show "rebindVariable H w nodeId p nv idx arr
             = (updateNode nodeId
                  (\<lambda>m. m\<lparr>n_bound := AList.update p (SingleB (Some nv)) (n_bound m)\<rparr>) w, True)"
    by (simp add: rebindVariable_def rebindVariable_body_def setBoundVariable_def hostNode_def)
next
  fix n assume "getNode w nodeId = Some n" "arr \<and> p \<notin> {''fills'', ''strokes'', ''effects''}"
  then show "rebindVariable H w nodeId p nv idx arr = (w, False)"
    by (simp add: rebindVariable_def rebindVariable_body_def)
next
  fix n assume "getNode w nodeId = Some n" "arr \<and> (nodeItems p n = Absent \<or> nodeItems p n = Mixed)"
  then show "rebindVariable H w nodeId p nv idx arr = (w, False)"
    by (auto simp: rebindVariable_def body_array rebindItems_def)
next
  fix n xs k assume "getNode w nodeId = Some n"
     "arr \<and> nodeItems p n = Items xs \<and> idx = Some k \<and> length xs \<le> k"
  then show "rebindVariable H w nodeId p nv idx arr = (w, False)"
    by (auto simp: rebindVariable_def body_array rebindItems_def)
next
  fix n xs k assume "getNode w nodeId = Some n"
     "arr \<and> nodeItems p n = Items xs \<and> idx = Some k \<and> k < length xs
            \<and> \<not> H w (bindCallOf p (Some (xs ! k)) nv)
            \<and> \<not> H w (assignCallOf p nodeId (xs[k := (xs ! k)\<lparr>p_boundColor := Some nv\<rparr>]))"
  then show "rebindVariable H w nodeId p nv idx arr
             = (updateNode nodeId (withItems p (xs[k := (xs ! k)\<lparr>p_boundColor := Some nv\<rparr>])) w,
                True)"
    by (auto simp: rebindVariable_def body_array rebindItems_def bindItem_def hostNode_def)
next
  fix n w' assume n: "getNode w nodeId = Some n" and
     a: "arr \<and> rebindVariable H w nodeId p nv idx arr = (w', True)"
  then have "rebindVariable_body H w nodeId p nv idx True = (w', Returns True)"
    by (auto simp: rebindVariable_cases split: prod.splits outcome.splits)
  with n have "rebindItems H w (bindCallOf p) (assignCallOf p nodeId) nodeId (withItems p) (nodeItems p n) nv idx = (w', Returns True)"
    by (auto simp: body_array split: if_splits)
  from rebindItems_True[OF this]
  show "\<exists>xs k. nodeItems p n = Items xs \<and> idx = Some k \<and> k < length xs
              \<and> w' = updateNode nodeId
                        (withItems p (xs[k := (xs ! k)\<lparr>p_boundColor := Some nv\<rparr>])) w"
    by blast
qed

theorem rebindVariable_total_witness:
  "getNode exampleWorld ''n1'' = Some buttonNode
   \<and> getNode exampleWorld ''n2'' = Some sliceNode
   \<and> nodeItems ''fills'' buttonNode
       = Items [\<lparr>p_type = ''SOLID'', p_boundColor = Some ''B''\<rparr>,
                \<lparr>p_type = ''SOLID'', p_boundColor = Some ''T''\<rparr>]
   \<and> nodeItems ''effects'' buttonNode = Mixed
   \<and> rebindVariable accepting exampleWorld ''n1'' ''fills'' ''S'' (Some 0) True
       = (updateNode ''n1''
            (withItems ''fills'' [\<lparr>p_type = ''SOLID'', p_boundColor = Some ''S''\<rparr>,
                                  \<lparr>p_type = ''SOLID'', p_boundColor = Some ''T''\<rparr>])
            exampleWorld, True)
   \<and> rebindVariable accepting exampleWorld ''n1'' ''fills'' ''S'' (Some 2) True
       = (exampleWorld, False)
   \<and> rebindVariable accepting exampleWorld ''n1'' ''effects'' ''S'' (Some 0) True
       = (exampleWorld, False)
   \<and> rebindVariable accepting exampleWorld ''n1'' ''layoutGrids'' ''S'' (Some 0) True
       = (exampleWorld, False)
   \<and> rebindVariable accepting exampleWorld ''n2'' ''opacity'' ''S'' None False
       = (exampleWorld, False)
   \<and> rebindVariable_body refusing exampleWorld ''n1'' ''opacity'' ''S'' None False
       = (exampleWorld, Throws (HostError (SetBoundVariable ''n1'' ''opacity'' ''S'')))
   \<and> rebindVariable refusing exampleWorld ''n1'' ''opacity'' ''S'' None False
       = (console (ConsoleError [Str ''Failed to rebind variable:'', Str ''opacity'',
                     Err (HostError (SetBoundVariable ''n1'' ''opacity'' ''S''))]) exampleWorld,
          False)"
proof -
  let ?p0 = "\<lparr>p_type = ''SOLID'', p_boundColor = Some ''B''\<rparr>"
  let ?p1 = "\<lparr>p_type = ''SOLID'', p_boundColor = Some ''T''\<rparr>"
  have n1: "getNode exampleWorld ''n1'' = Some buttonNode"
    and n2: "getNode exampleWorld ''n2'' = Some sliceNode"
    and fills: "nodeItems ''fills'' buttonNode = Items [?p0, ?p1]"
    and effects: "nodeItems ''effects'' buttonNode = Mixed"
    and cap: "\<not> n_hasSetBoundVariable sliceNode"
    and body: "rebindVariable_body refusing exampleWorld ''n1'' ''opacity'' ''S'' None False
       = (exampleWorld, Throws (HostError (SetBoundVariable ''n1'' ''opacity'' ''S'')))"
    by code_simp+
  have acc: "\<And>c. \<not> accepting exampleWorld c" by (simp add: accepting_def)
  have upd: "[?p0, ?p1][0 := ([?p0, ?p1] ! 0)\<lparr>p_boundColor := Some ''S''\<rparr>]
               = [\<lparr>p_type = ''SOLID'', p_boundColor = Some ''S''\<rparr>, ?p1]"
    by simp
  note A = rebindVariable_total[of accepting exampleWorld "''n1''" _ "''S''" _ True,
             THEN conjunct2, THEN conjunct2, rule_format, OF n1]
  have c1: "rebindVariable accepting exampleWorld ''n1'' ''fills'' ''S'' (Some 0) True
       = (updateNode ''n1''
            (withItems ''fills'' ([?p0, ?p1][0 := ([?p0, ?p1] ! 0)\<lparr>p_boundColor := Some ''S''\<rparr>]))
            exampleWorld, True)"
    by (rule A[of "''fills''" "Some 0", THEN conjunct2, THEN conjunct2, THEN conjunct2,
                 THEN conjunct2, THEN conjunct2, THEN conjunct1, rule_format])
       (use fills acc in simp)
  have c2: "rebindVariable accepting exampleWorld ''n1'' ''fills'' ''S'' (Some 2) True
       = (exampleWorld, False)"
    by (rule A[of "''fills''" "Some 2", THEN conjunct2, THEN conjunct2, THEN conjunct2,
                 THEN conjunct2, THEN conjunct1, rule_format, of "[?p0, ?p1]" 2])
       (use fills in simp)
  have c3: "rebindVariable accepting exampleWorld ''n1'' ''effects'' ''S'' (Some 0) True
       = (exampleWorld, False)"
    by (rule A[of "''effects''" "Some 0", THEN conjunct2, THEN conjunct2, THEN conjunct2,
                 THEN conjunct1, rule_format])
       (use effects in simp)
  have c4: "rebindVariable accepting exampleWorld ''n1'' ''layoutGrids'' ''S'' (Some 0) True
       = (exampleWorld, False)"
    by (rule A[of "''layoutGrids''" "Some 0", THEN conjunct2, THEN conjunct2,
                 THEN conjunct1, rule_format])
       simp
  have c5: "rebindVariable accepting exampleWorld ''n2'' ''opacity'' ''S'' None False
       = (exampleWorld, False)"
    by (rule rebindVariable_total[of accepting exampleWorld "''n2''" "''opacity''" "''S''" None False,
             THEN conjunct2, THEN conjunct2, rule_format, OF n2, THEN conjunct1, rule_format])
       (use cap in simp)
  have c6: "rebindVariable refusing exampleWorld ''n1'' ''opacity'' ''S'' None False
       = (console (ConsoleError [Str ''Failed to rebind variable:'', Str ''opacity'',
                     Err (HostError (SetBoundVariable ''n1'' ''opacity'' ''S''))]) exampleWorld,
          False)"
    by (rule rebindVariable_total[of refusing exampleWorld "''n1''" "''opacity''" "''S''" None False,
             THEN conjunct2, THEN conjunct1, rule_format, OF body])
  show ?thesis using n1 n2 fills effects c1[unfolded upd] c2 c3 c4 c5 body c6 by blast
qed

section \<open>Properties of the phases\<close>

lemma getVariable_None_iff: "getVariable w i = None \<longleftrightarrow> i \<notin> ids w"
  by (auto simp: getVariable_def ids_def find_None_iff)

lemma fresh_id_longer: "i \<in> set xs \<Longrightarrow> length i \<le> foldr max (map length xs) 0"
  by (induction xs) auto

lemma fresh_id_fresh: "fresh_id xs \<notin> set xs"
proof
  assume "fresh_id xs \<in> set xs"
  from fresh_id_longer[OF this] show False by (simp add: fresh_id_def)
qed

lemma grows_refl: "grows w w"
  by (simp add: grows_def)

lemma grows_trans: "grows w w1 \<Longrightarrow> grows w1 w2 \<Longrightarrow> grows w w2"
  by (auto simp: grows_def)

lemma grows_console: "grows w w' \<Longrightarrow> grows w (console e w')"
  by (auto simp: grows_def console_def getVariable_def ids_def)

lemma ids_console [simp]: "ids (console e w) = ids w"
  by (simp add: ids_def console_def)

lemma find_append_in:
  "find P (xs @ ys) = (case find P xs of None \<Rightarrow> find P ys | Some x \<Rightarrow> Some x)"
  by (induction xs) simp_all

lemma createVariable_fresh:
  assumes "createVariable H w name cid t = Inr (w1, i)"
  shows "i \<notin> ids w \<and> ids w1 = insert i (ids w) \<and> grows w w1"
proof -
  from assms obtain c where c: "getCollection w cid = Some c"
    by (auto simp: createVariable_def split: if_splits option.splits)
  from assms c have i: "i = fresh_id (map v_id (w_variables w))"
    and vars: "\<exists>nv. v_id nv = i \<and> w_variables w1 = w_variables w @ [nv]"
    and rest: "w_pages w1 = w_pages w" "w_ui w1 = w_ui w"
    by (auto simp: createVariable_def Let_def split: if_splits)
  have fresh: "i \<notin> ids w" unfolding i ids_def using fresh_id_fresh[of "map v_id (w_variables w)"] by simp
  from vars obtain nv where nv: "v_id nv = i" "w_variables w1 = w_variables w @ [nv]" by blast
  have "\<And>j. j \<in> ids w \<Longrightarrow> getVariable w1 j = getVariable w j"
    unfolding getVariable_def nv ids_def by (auto simp: find_append_in find_None_iff split: option.splits)
  then show ?thesis using fresh nv rest by (auto simp: grows_def ids_def)
qed

lemma map_v_id_update:
  "(\<And>v. v_id (f v) = v_id v) \<Longrightarrow>
     map v_id (map (\<lambda>v. if v_id v = i then f v else v) vs) = map v_id vs"
  by (induction vs) simp_all

lemma ids_updateVariable:
  "(\<And>v. v_id (f v) = v_id v) \<Longrightarrow> ids (updateVariable i f w) = ids w"
proof -
  assume f: "\<And>v. v_id (f v) = v_id v"
  have "ids (updateVariable i f w) = set (map v_id (w_variables (updateVariable i f w)))"
    by (simp add: ids_def)
  also have "\<dots> = set (map v_id (w_variables w))"
    using map_v_id_update[of f i "w_variables w", OF f] by (simp add: updateVariable_def)
  finally show ?thesis by (simp add: ids_def)
qed

lemma hostSet_other:
  assumes "hostSet H w c i f = Inr w'" and f: "\<And>v. v_id (f v) = v_id v"
  shows "ids w' = ids w \<and> w_pages w' = w_pages w \<and> w_ui w' = w_ui w
         \<and> (\<forall>j. j \<noteq> i \<longrightarrow> getVariable w' j = getVariable w j)"
proof -
  from assms have w': "w' = updateVariable i f w" by (auto simp: hostSet_def split: if_splits)
  have 1: "ids w' = ids w" unfolding w' using f by (rule ids_updateVariable)
  have 2: "w_pages w' = w_pages w" "w_ui w' = w_ui w" unfolding w' by (simp_all add: updateVariable_def)
  have 3: "\<And>j. j \<noteq> i \<Longrightarrow> getVariable w' j = getVariable w j"
    unfolding w' using getVariable_updateVariable[of f i w, OF f] by simp
  show ?thesis using 1 2 3 by blast
qed

lemma shellStep_refl: "shellStep i w w"
  by (simp add: shellStep_def)

lemma shellStep_trans: "shellStep i w w1 \<Longrightarrow> shellStep i w1 w2 \<Longrightarrow> shellStep i w w2"
  by (simp add: shellStep_def)

lemma hostSet_shellStep:
  "hostSet H w c i f = Inr w' \<Longrightarrow> (\<And>v. v_id (f v) = v_id v) \<Longrightarrow> shellStep i w w'"
  using hostSet_other[of H w c i f w'] by (simp add: shellStep_def)

lemma grows_shellStep:
  "grows w w1 \<Longrightarrow> i \<notin> ids w \<Longrightarrow> shellStep i w1 w2 \<Longrightarrow> grows w w2"
  by (auto simp: grows_def shellStep_def)

lemma copyCodeSyntax_shellStep:
  "copyCodeSyntax H i cs w = (w', r) \<Longrightarrow> shellStep i w w'"
proof (induction cs arbitrary: w)
  case Nil
  then show ?case by (simp add: shellStep_refl)
next
  case (Cons p cs)
  obtain platform x where p: "p = (platform, x)" by (cases p)
  show ?case
  proof (cases "setVariableCodeSyntax H w i platform x")
    case (Inl e)
    with Cons.prems p show ?thesis by (simp add: shellStep_refl)
  next
    case (Inr w1)
    then have "shellStep i w w1"
      unfolding setVariableCodeSyntax_def by (rule hostSet_shellStep) simp
    moreover from Cons.prems p Inr have "copyCodeSyntax H i cs w1 = (w', r)" by simp
    ultimately show ?thesis using Cons.IH shellStep_trans by blast
  qed
qed

lemma createVariableInCollection_grows:
  assumes run: "createVariableInCollection H w ov dest = (w', r)"
  shows "grows w w' \<and> (\<forall>nv. r = Returns nv \<longrightarrow> nv \<notin> ids w \<and> nv \<in> ids w')"
proof (cases "createVariable H w (v_name ov) (c_id dest) (v_resolvedType ov)")
  case (Inl e)
  with run show ?thesis by (auto simp: createVariableInCollection_def grows_refl)
next
  case (Inr p)
  obtain w1 i where p: "p = (w1, i)" by (cases p)
  from createVariable_fresh[OF Inr[unfolded p]]
  have fresh: "i \<notin> ids w" and ids1: "ids w1 = insert i (ids w)" and g1: "grows w w1" by blast+
  let ?s1 = "if v_description ov \<noteq> []
            then hostSet H w1 (SetDescription i (v_description ov)) i
                   (\<lambda>v. v\<lparr>v_description := v_description ov\<rparr>)
            else Inr w1"
  have fin: "\<And>wk. shellStep i w1 wk \<Longrightarrow> grows w wk \<and> i \<in> ids wk"
    using g1 fresh ids1 by (auto intro: grows_shellStep simp: shellStep_def)
  show ?thesis
  proof (cases ?s1)
    case (Inl e)
    with run Inr p have "w' = w1" "r = Throws e" by (simp_all add: createVariableInCollection_def)
    with g1 show ?thesis by auto
  next
    case s1: (Inr w2)
    then have st2: "shellStep i w1 w2"
      by (auto split: if_splits intro: shellStep_refl hostSet_shellStep)
    let ?s2 = "hostSet H w2 (SetHiddenFromPublishing i (v_hiddenFromPublishing ov)) i
                 (\<lambda>v. v\<lparr>v_hiddenFromPublishing := v_hiddenFromPublishing ov\<rparr>)"
    show ?thesis
    proof (cases ?s2)
      case (Inl e)
      with run Inr p s1 have "w' = w2" "r = Throws e" by (simp_all add: createVariableInCollection_def)
      with fin[OF st2] show ?thesis by auto
    next
      case s2: (Inr w3)
      then have "shellStep i w2 w3" by (rule hostSet_shellStep) simp
      with st2 have st3: "shellStep i w1 w3" by (rule shellStep_trans)
      let ?s3 = "if length (v_scopes ov) > 0
                 then hostSet H w3 (SetScopes i (v_scopes ov)) i (\<lambda>v. v\<lparr>v_scopes := v_scopes ov\<rparr>)
                 else Inr w3"
      show ?thesis
      proof (cases ?s3)
        case (Inl e)
        with run Inr p s1 s2 have "w' = w3" "r = Throws e"
          by (simp_all add: createVariableInCollection_def)
        with fin[OF st3] show ?thesis by auto
      next
        case s3: (Inr w4)
        then have "shellStep i w3 w4"
          by (auto split: if_splits intro: shellStep_refl hostSet_shellStep)
        with st3 have st4: "shellStep i w1 w4" by (rule shellStep_trans)
        obtain w5 r5 where s4: "copyCodeSyntax H i (v_codeSyntax ov) w4 = (w5, r5)"
          by (cases "copyCodeSyntax H i (v_codeSyntax ov) w4")
        from copyCodeSyntax_shellStep[OF s4] st4 have st5: "shellStep i w1 w5"
          using shellStep_trans by blast
        from run Inr p s1 s2 s3 s4 have "w' = w5" "r = Returns i \<or> (\<exists>e. r = Throws e)"
          by (auto simp: createVariableInCollection_def split: outcome.splits)
        with fin[OF st5] fresh show ?thesis by auto
      qed
    qed
  qed
qed

lemma update_values:
  "snd ` set (AList.update k v al) \<subseteq> insert v (snd ` set al)"
  by (induction al) auto

lemma update_distinct_values:
  "distinct (map snd al) \<Longrightarrow> v \<notin> snd ` set al \<Longrightarrow> distinct (map snd (AList.update k v al))"
proof (induction al)
  case Nil
  then show ?case by simp
next
  case (Cons p al)
  have "snd ` set (AList.update k v al) \<subseteq> insert v (snd ` set al)" by (rule update_values)
  moreover from Cons have "snd p \<notin> snd ` set al" "snd p \<noteq> v" "distinct (map snd al)"
    "v \<notin> snd ` set al" by auto
  ultimately have "snd p \<notin> snd ` set (AList.update k v al)" by blast
  with Cons show ?case by (cases p) simp
qed

lemma update_length: "length (AList.update k v al) \<le> Suc (length al)"
  by (induction al) auto

lemma phase1_step:
  assumes run: "phase1 H dest (ov # rest) (w, idm, cs, ce) = (w', idm', cs', ce')"
      and ok0: "shellsOk old w idm"
  shows "\<exists>w2 idm2 cs2 ce2. phase1 H dest rest (w2, idm2, cs2, ce2) = (w', idm', cs', ce')
                \<and> grows w w2 \<and> shellsOk old w2 idm2 \<and> cs2 + ce2 = Suc (cs + ce)
                \<and> length idm2 + cs \<le> length idm + cs2
                \<and> fst ` set idm \<subseteq> fst ` set idm2
                \<and> fst ` set idm2 \<subseteq> insert (v_id ov) (fst ` set idm)"
proof -
  obtain w1 r where c: "createVariableInCollection H w ov dest = (w1, r)"
    by (cases "createVariableInCollection H w ov dest")
  from createVariableInCollection_grows[OF c]
  have g1: "grows w w1" and new: "\<forall>nv. r = Returns nv \<longrightarrow> nv \<notin> ids w \<and> nv \<in> ids w1"
    by (rule conjunct1, rule conjunct2)
  from ok0 g1 have sub1: "snd ` set idm \<subseteq> ids w1" "old \<subseteq> ids w1"
    unfolding shellsOk_def grows_def by blast+
  show ?thesis
  proof (cases r)
    case (Throws e)
    let ?w = "console (ConsoleError [Str ''  Failed to create:'', Str (v_name ov), Err e]) w1"
    from run c Throws
    have "phase1 H dest rest (?w, idm, cs, Suc ce) = (w', idm', cs', ce')" by simp
    moreover have "shellsOk old ?w idm" using ok0 sub1 by (simp add: shellsOk_def)
    moreover have "grows w ?w" using g1 by (rule grows_console)
    moreover have "cs + Suc ce = Suc (cs + ce)" "length idm + cs \<le> length idm + cs"
      "fst ` set idm \<subseteq> fst ` set idm" "fst ` set idm \<subseteq> insert (v_id ov) (fst ` set idm)"
      by auto
    ultimately show ?thesis by blast
  next
    case (Returns nv)
    let ?w = "console (ConsoleLog [Str ''  Created:'', Str (v_name ov)]) w1"
    let ?idm = "AList.update (v_id ov) nv idm"
    from run c Returns
    have r2: "phase1 H dest rest (?w, ?idm, Suc cs, ce) = (w', idm', cs', ce')" by simp
    from new Returns have nv: "nv \<notin> ids w" "nv \<in> ids w1" by blast+
    from nv ok0 have nv': "nv \<notin> snd ` set idm" "nv \<notin> old" unfolding shellsOk_def by blast+
    have v: "snd ` set ?idm \<subseteq> insert nv (snd ` set idm)" by (rule update_values)
    have o1: "snd ` set ?idm \<subseteq> ids w1" using v sub1 nv by blast
    have "snd ` set idm \<inter> old = {}" using ok0 unfolding shellsOk_def by blast
    then have o2: "snd ` set ?idm \<inter> old = {}" using v nv' by blast
    have "distinct (map snd idm)" using ok0 unfolding shellsOk_def by blast
    then have o3: "distinct (map snd ?idm)" using nv'(1) by (rule update_distinct_values)
    have ok: "shellsOk old ?w ?idm"
      using o1 o2 o3 sub1 by (simp add: shellsOk_def)
    have keys: "fst ` set ?idm = {v_id ov} \<union> fst ` set idm" by (rule dom_update)
    have k1: "fst ` set idm \<subseteq> fst ` set ?idm" "fst ` set ?idm \<subseteq> insert (v_id ov) (fst ` set idm)"
      unfolding keys by blast+
    have len: "length ?idm + cs \<le> length idm + Suc cs"
      using update_length[of "v_id ov" nv idm] by simp
    have gw: "grows w ?w" using g1 by (rule grows_console)
    have cnt: "Suc cs + ce = Suc (cs + ce)" by simp
    from r2 gw ok cnt len k1 show ?thesis by blast
  qed
qed

lemma phase1_inv:
  assumes "phase1 H dest vs (w, idm, cs, ce) = (w', idm', cs', ce')"
      and "shellsOk old w idm"
  shows "grows w w' \<and> shellsOk old w' idm'
       \<and> cs' + ce' = cs + ce + length vs
       \<and> length idm' + cs \<le> length idm + cs'
       \<and> fst ` set idm \<subseteq> fst ` set idm'
       \<and> fst ` set idm' \<subseteq> fst ` set idm \<union> v_id ` set vs"
  using assms
proof (induction vs arbitrary: w idm cs ce)
  case Nil
  then show ?case by (simp add: grows_refl)
next
  case (Cons ov rest)
  from phase1_step[OF Cons.prems] obtain w2 idm2 cs2 ce2 where
    run2: "phase1 H dest rest (w2, idm2, cs2, ce2) = (w', idm', cs', ce')"
    and g: "grows w w2" and ok: "shellsOk old w2 idm2" and n: "cs2 + ce2 = Suc (cs + ce)"
    and l: "length idm2 + cs \<le> length idm + cs2"
    and k1: "fst ` set idm \<subseteq> fst ` set idm2"
    and k2: "fst ` set idm2 \<subseteq> insert (v_id ov) (fst ` set idm)"
    by iprover
  note ih = Cons.IH[OF run2 ok]
  have a: "grows w w'" using g ih[THEN conjunct1] by (rule grows_trans)
  have b: "shellsOk old w' idm'" using ih by (rule conjunct2[THEN conjunct1])
  have c: "cs' + ce' = cs + ce + length (ov # rest)"
    using ih[THEN conjunct2, THEN conjunct2, THEN conjunct1] n by simp
  have d: "length idm' + cs \<le> length idm + cs'"
    using ih[THEN conjunct2, THEN conjunct2, THEN conjunct2, THEN conjunct1] l by simp
  have e: "fst ` set idm \<subseteq> fst ` set idm'"
    using ih[THEN conjunct2, THEN conjunct2, THEN conjunct2, THEN conjunct2, THEN conjunct1] k1
    by blast
  have f: "fst ` set idm' \<subseteq> fst ` set idm \<union> v_id ` set (ov # rest)"
    using ih[THEN conjunct2, THEN conjunct2, THEN conjunct2, THEN conjunct2, THEN conjunct2] k2
    by auto
  from a b c d e f show ?case by blast
qed

lemma phase1_step_cases:
  assumes run: "phase1 H dest (ov # rest) (w, idm, cs, ce) = (w', idm', cs', ce')"
  shows "(\<exists>w2. phase1 H dest rest (w2, idm, cs, Suc ce) = (w', idm', cs', ce'))
       \<or> (\<exists>w2 nv. phase1 H dest rest (w2, AList.update (v_id ov) nv idm, Suc cs, ce)
                     = (w', idm', cs', ce'))"
proof -
  obtain w1 r where c: "createVariableInCollection H w ov dest = (w1, r)"
    by (cases "createVariableInCollection H w ov dest")
  show ?thesis
  proof (cases r)
    case (Throws e)
    with run c show ?thesis by auto
  next
    case (Returns nv)
    with run c show ?thesis by auto
  qed
qed

lemma phase1_keys:
  assumes "phase1 H dest vs (w, idm, cs, ce) = (w', idm', cs', ce')"
  shows "fst ` set idm \<subseteq> fst ` set idm' \<and> fst ` set idm' \<subseteq> fst ` set idm \<union> v_id ` set vs"
  using assms
proof (induction vs arbitrary: w idm cs ce)
  case Nil
  then show ?case by simp
next
  case (Cons ov rest)
  from phase1_step_cases[OF Cons.prems] show ?case
  proof
    assume "\<exists>w2. phase1 H dest rest (w2, idm, cs, Suc ce) = (w', idm', cs', ce')"
    then obtain w2 where "phase1 H dest rest (w2, idm, cs, Suc ce) = (w', idm', cs', ce')" ..
    from Cons.IH[OF this] show ?thesis by auto
  next
    assume "\<exists>w2 nv. phase1 H dest rest (w2, AList.update (v_id ov) nv idm, Suc cs, ce)
                     = (w', idm', cs', ce')"
    then obtain w2 nv where
      "phase1 H dest rest (w2, AList.update (v_id ov) nv idm, Suc cs, ce) = (w', idm', cs', ce')"
      by iprover
    from Cons.IH[OF this] dom_update[of "v_id ov" nv idm] show ?thesis by auto
  qed
qed

lemma idmap_inj:
  assumes "distinct (map snd idm)" "map_of idm k1 = Some s" "map_of idm k2 = Some s"
  shows "k1 = k2"
proof -
  from assms(2,3) have in1: "(k1, s) \<in> set idm" and in2: "(k2, s) \<in> set idm"
    by (auto dest: map_of_SomeD)
  from assms(1) have inj: "inj_on snd (set idm)" by (simp add: distinct_map)
  have "snd (k1, s) = snd (k2, s)" by simp
  from inj_onD[OF inj this in1 in2] show ?thesis by simp
qed

lemma phase1_counts:
  assumes "phase1 H dest vs (w, idm, cs, ce) = (w', idm', cs', ce')"
      and "distinct (map v_id vs)" "v_id ` set vs \<inter> fst ` set idm = {}"
  shows "ce' = ce + length (filter (\<lambda>v. map_of idm' (v_id v) = None) vs)
       \<and> cs' = cs + length (filter (\<lambda>v. map_of idm' (v_id v) \<noteq> None) vs)"
  using assms
proof (induction vs arbitrary: w idm cs ce)
  case Nil
  then show ?case by simp
next
  case (Cons ov rest)
  have d: "distinct (map v_id rest)" "v_id ov \<notin> v_id ` set rest" "v_id ov \<notin> fst ` set idm"
    "v_id ` set rest \<inter> fst ` set idm = {}"
    using Cons.prems(2,3) by auto
  from phase1_step_cases[OF Cons.prems(1)] show ?case
  proof
    assume "\<exists>w2. phase1 H dest rest (w2, idm, cs, Suc ce) = (w', idm', cs', ce')"
    then obtain w2 where run: "phase1 H dest rest (w2, idm, cs, Suc ce) = (w', idm', cs', ce')" ..
    from phase1_keys[OF run] d have "v_id ov \<notin> fst ` set idm'" by blast
    then have "map_of idm' (v_id ov) = None" by (simp add: map_of_eq_None_iff)
    note ih = Cons.IH[OF run d(1) d(4)]
    show ?thesis
      apply (simp add: \<open>map_of idm' (v_id ov) = None\<close>)
      using ih apply simp
      done
  next
    assume "\<exists>w2 nv. phase1 H dest rest (w2, AList.update (v_id ov) nv idm, Suc cs, ce)
                     = (w', idm', cs', ce')"
    then obtain w2 nv where run:
      "phase1 H dest rest (w2, AList.update (v_id ov) nv idm, Suc cs, ce) = (w', idm', cs', ce')"
      by iprover
    have keys: "fst ` set (AList.update (v_id ov) nv idm) = {v_id ov} \<union> fst ` set idm"
      by (rule dom_update)
    have "v_id ov \<in> fst ` set (AList.update (v_id ov) nv idm)" unfolding keys by simp
    with phase1_keys[OF run, THEN conjunct1] have "v_id ov \<in> fst ` set idm'" by (rule subsetD)
    then have "map_of idm' (v_id ov) \<noteq> None" by (simp add: map_of_eq_None_iff)
    then have some: "map_of idm' (v_id ov) = None \<longleftrightarrow> False" by simp
    have "v_id ` set rest \<inter> fst ` set (AList.update (v_id ov) nv idm) = {}"
      unfolding keys using d(2,4) by auto
    note ih = Cons.IH[OF run d(1) this]
    show ?thesis
      apply (simp add: some)
      using ih apply simp
      done
  qed
qed

lemma copyVariableValues_frame:
  "copyVariableValues H w ov nv dest idm = (w', r) \<Longrightarrow>
     onlyValues nv (modeId ` set (c_modes dest)) w w'"
  unfolding copyVariableValues_def by (rule loop_frame)

lemma phase2_step:
  assumes run: "phase2 H dest idm (ov # rest) (w, a, b) = (w', a', b')"
  shows "\<exists>w1 a1 b1 e. phase2 H dest idm rest (w1, a1, b1) = (w', a', b') \<and> a1 + b1 = Suc (a + b)
           \<and> (case map_of idm (v_id ov) of
                 None \<Rightarrow> w1 = console e w
               | Some nv \<Rightarrow> \<exists>wc r. copyVariableValues H w ov nv dest idm = (wc, r)
                                    \<and> w1 = console e wc)"
proof (cases "map_of idm (v_id ov)")
  case None
  let ?e = "ConsoleError [Str ''  No new variable found for:'', Str (v_name ov)]"
  from run None have "phase2 H dest idm rest (console ?e w, a, Suc b) = (w', a', b')" by simp
  moreover have "a + Suc b = Suc (a + b)" by simp
  ultimately have "phase2 H dest idm rest (console ?e w, a, Suc b) = (w', a', b')
           \<and> a + Suc b = Suc (a + b)
           \<and> (case map_of idm (v_id ov) of
                 None \<Rightarrow> console ?e w = console ?e w
               | Some nv \<Rightarrow> \<exists>wc r. copyVariableValues H w ov nv dest idm = (wc, r)
                                    \<and> console ?e w = console ?e wc)"
    using None by simp
  then show ?thesis by blast
next
  case (Some nv)
  obtain wc r where c: "copyVariableValues H w ov nv dest idm = (wc, r)"
    by (cases "copyVariableValues H w ov nv dest idm")
  show ?thesis
  proof (cases r)
    case (Returns u)
    let ?e = "ConsoleLog [Str ''  Copied values:'', Str (v_name ov)]"
    from run Some c Returns have "phase2 H dest idm rest (console ?e wc, Suc a, b) = (w', a', b')"
      by simp
    moreover have "Suc a + b = Suc (a + b)" by simp
    ultimately have "phase2 H dest idm rest (console ?e wc, Suc a, b) = (w', a', b')
           \<and> Suc a + b = Suc (a + b)
           \<and> (case map_of idm (v_id ov) of
                 None \<Rightarrow> console ?e wc = console ?e w
               | Some nv \<Rightarrow> \<exists>wc' r. copyVariableValues H w ov nv dest idm = (wc', r)
                                    \<and> console ?e wc = console ?e wc')"
      using Some c by simp
    then show ?thesis by blast
  next
    case (Throws x)
    let ?e = "ConsoleError [Str ''  Failed to copy values:'', Str (v_name ov), Err x]"
    from run Some c Throws have "phase2 H dest idm rest (console ?e wc, a, Suc b) = (w', a', b')"
      by simp
    moreover have "a + Suc b = Suc (a + b)" by simp
    ultimately have "phase2 H dest idm rest (console ?e wc, a, Suc b) = (w', a', b')
           \<and> a + Suc b = Suc (a + b)
           \<and> (case map_of idm (v_id ov) of
                 None \<Rightarrow> console ?e wc = console ?e w
               | Some nv \<Rightarrow> \<exists>wc' r. copyVariableValues H w ov nv dest idm = (wc', r)
                                    \<and> console ?e wc = console ?e wc')"
      using Some c by simp
    then show ?thesis by blast
  qed
qed

lemma keeps_refl: "keeps T w w"
  by (simp add: keeps_def)

lemma keeps_trans: "keeps T w w1 \<Longrightarrow> keeps T' w1 w2 \<Longrightarrow> keeps (T \<union> T') w w2"
  by (simp add: keeps_def)

lemma keeps_mono: "keeps T w w' \<Longrightarrow> T \<subseteq> T' \<Longrightarrow> keeps T' w w'"
  unfolding keeps_def by blast

lemma onlyValues_keeps: "onlyValues nv M w w' \<Longrightarrow> keeps {nv} w w'"
  by (simp add: onlyValues_def keeps_def)

lemma keeps_console: "keeps T w w' \<Longrightarrow> keeps T w (console e w')"
  by (simp add: keeps_def) (simp add: console_def)

lemma phase2_frame:
  assumes "phase2 H dest idm vs (w, a, b) = (w', a', b')"
  shows "keeps (shellsOf idm vs) w w' \<and> a' + b' = a + b + length vs"
  using assms
proof (induction vs arbitrary: w a b)
  case Nil
  then show ?case by (simp add: keeps_refl)
next
  case (Cons ov rest)
  from phase2_step[OF Cons.prems] obtain w1 a1 b1 e where
    run: "phase2 H dest idm rest (w1, a1, b1) = (w', a', b')" and n: "a1 + b1 = Suc (a + b)"
    and st: "case map_of idm (v_id ov) of
                 None \<Rightarrow> w1 = console e w
               | Some nv \<Rightarrow> \<exists>wc r. copyVariableValues H w ov nv dest idm = (wc, r)
                                    \<and> w1 = console e wc"
    by iprover
  have k1: "keeps (shellsOf idm [ov]) w w1"
  proof (cases "map_of idm (v_id ov)")
    case None
    with st show ?thesis by (simp add: keeps_console keeps_refl)
  next
    case (Some nv)
    with st obtain wc r where c: "copyVariableValues H w ov nv dest idm = (wc, r)"
      and w1: "w1 = console e wc" by auto
    from onlyValues_keeps[OF copyVariableValues_frame[OF c]] have "keeps {nv} w wc" .
    moreover have "shellsOf idm [ov] = {nv}" using Some by (simp add: shellsOf_def)
    ultimately show ?thesis unfolding w1 by (simp add: keeps_console)
  qed
  note ih = Cons.IH[OF run]
  have "shellsOf idm [ov] \<union> shellsOf idm rest = shellsOf idm (ov # rest)"
    unfolding shellsOf_def by auto
  with keeps_trans[OF k1 ih[THEN conjunct1]] have "keeps (shellsOf idm (ov # rest)) w w'" by simp
  moreover from ih n have "a' + b' = a + b + length (ov # rest)" by simp
  ultimately show ?case by simp
qed

lemma expectedWrite_keeps:
  "keeps T w w' \<Longrightarrow> expectedWrite w' idm x = expectedWrite w idm x"
  by (auto simp: expectedWrite_def keeps_def split: val.splits option.splits)

lemma copyVariableValues_position:
  assumes acc: "\<And>w m y. \<not> H w (SetValueForMode nv m y)"
      and getok: "\<And>R w. x = VariableAlias R \<Longrightarrow> map_of idm R = None \<Longrightarrow> \<not> H w (GetVariableById R)"
      and ex: "getVariable w nv \<noteq> None"
      and dist: "distinct (map modeId (c_modes dest))"
      and i: "i < length (c_modes dest)" "i < length (v_valuesByMode ov)"
      and x: "map_of (v_valuesByMode ov) (map fst (v_valuesByMode ov) ! i) = Some x"
      and run: "copyVariableValues H w ov nv dest idm = (w', r)"
  shows "valueAt w' nv (modeId (c_modes dest ! i)) =
           (case expectedWrite w idm x of Some y \<Rightarrow> Some y
            | None \<Rightarrow> valueAt w nv (modeId (c_modes dest ! i)))"
  by (rule loop_position[where i = 0 and j = i and H = H and ov = ov and r = r])
     (use acc getok ex dist i x run in \<open>simp_all add: copyVariableValues_def\<close>)

lemma phase2_value:
  assumes acc: "\<And>w m y. \<not> H w (SetValueForMode SB m y)"
      and getok: "\<And>R w. x = VariableAlias R \<Longrightarrow> map_of idm R = None \<Longrightarrow> \<not> H w (GetVariableById R)"
      and dist: "distinct (map modeId (c_modes dest))"
      and i: "i < length (c_modes dest)" "i < length (v_valuesByMode B)"
      and x: "map_of (v_valuesByMode B) (map fst (v_valuesByMode B) ! i) = Some x"
      and inj: "distinct (map snd idm)"
      and mB: "map_of idm (v_id B) = Some SB"
  shows "phase2 H dest idm vs (w, a, b) = (w', a', b') \<Longrightarrow> B \<in> set vs \<Longrightarrow>
         (\<forall>C \<in> set vs. v_id C = v_id B \<longrightarrow> C = B) \<Longrightarrow> getVariable w SB \<noteq> None \<Longrightarrow>
         valueAt w' SB (modeId (c_modes dest ! i)) =
           (case expectedWrite w idm x of Some y \<Rightarrow> Some y
            | None \<Rightarrow> valueAt w SB (modeId (c_modes dest ! i)))"
proof (induction vs arbitrary: w a b)
  case Nil
  then show ?case by simp
next
  case (Cons C rest)
  let ?m = "modeId (c_modes dest ! i)"
  from phase2_step[OF Cons.prems(1)] obtain w1 a1 b1 e where
    run: "phase2 H dest idm rest (w1, a1, b1) = (w', a', b')"
    and st: "case map_of idm (v_id C) of
                 None \<Rightarrow> w1 = console e w
               | Some nv \<Rightarrow> \<exists>wc r. copyVariableValues H w C nv dest idm = (wc, r)
                                    \<and> w1 = console e wc"
    by iprover
  have only: "\<forall>C' \<in> set rest. v_id C' = v_id B \<longrightarrow> C' = B" using Cons.prems(3) by simp
  have k1: "keeps (shellsOf idm [C]) w w1"
    using phase2_frame[of H dest idm "[C]" w a b w1 "a1" "b1"] st
  proof (cases "map_of idm (v_id C)")
    case None
    with st show ?thesis by (simp add: keeps_console keeps_refl)
  next
    case (Some nv)
    with st obtain wc r where c: "copyVariableValues H w C nv dest idm = (wc, r)"
      and w1: "w1 = console e wc" by auto
    from onlyValues_keeps[OF copyVariableValues_frame[OF c]] have "keeps {nv} w wc" .
    moreover have "shellsOf idm [C] = {nv}" using Some by (simp add: shellsOf_def)
    ultimately show ?thesis unfolding w1 by (simp add: keeps_console)
  qed
  then have ex1: "getVariable w1 SB \<noteq> None" using Cons.prems(4) by (simp add: keeps_def)
  have ew: "expectedWrite w1 idm x = expectedWrite w idm x" using k1 by (rule expectedWrite_keeps)
  \<comment> \<open>the value at the mode after the step on \<open>C\<close>\<close>
  have v1: "valueAt w1 SB ?m =
              (if C = B then (case expectedWrite w idm x of Some y \<Rightarrow> Some y
                              | None \<Rightarrow> valueAt w SB ?m)
               else valueAt w SB ?m)"
  proof (cases "C = B")
    case True
    with st mB obtain wc r where c: "copyVariableValues H w B SB dest idm = (wc, r)"
      and w1: "w1 = console e wc" by auto
    have "valueAt wc SB ?m =
           (case expectedWrite w idm x of Some y \<Rightarrow> Some y | None \<Rightarrow> valueAt w SB ?m)"
      by (rule copyVariableValues_position[where H = H and ov = B and r = r])
         (use acc getok Cons.prems(4) dist i x c in simp_all)
    with True w1 show ?thesis by simp
  next
    case False
    have "SB \<notin> shellsOf idm [C]"
    proof
      assume "SB \<in> shellsOf idm [C]"
      then have "map_of idm (v_id C) = Some SB" by (simp add: shellsOf_def)
      from idmap_inj[OF inj this mB] have "v_id C = v_id B" .
      with Cons.prems(3) False show False by simp
    qed
    with k1 have "getVariable w1 SB = getVariable w SB" by (simp add: keeps_def)
    with False show ?thesis by (simp add: valueAt_def)
  qed
  show ?case
  proof (cases "B \<in> set rest")
    case True
    from Cons.IH[OF run True only ex1]
    have "valueAt w' SB ?m =
           (case expectedWrite w1 idm x of Some y \<Rightarrow> Some y | None \<Rightarrow> valueAt w1 SB ?m)" .
    with ew v1 show ?thesis by (simp split: option.splits if_splits)
  next
    case False
    with Cons.prems(2) have CB: "C = B" by simp
    have "SB \<notin> shellsOf idm rest"
    proof
      assume "SB \<in> shellsOf idm rest"
      then obtain C' where C': "C' \<in> set rest" "map_of idm (v_id C') = Some SB"
        by (auto simp: shellsOf_def)
      from idmap_inj[OF inj C'(2) mB] only C'(1) have "C' = B" by simp
      with C'(1) False show False by simp
    qed
    with phase2_frame[OF run] have "getVariable w' SB = getVariable w1 SB"
      by (simp add: keeps_def)
    then have "valueAt w' SB ?m = valueAt w1 SB ?m" by (simp add: valueAt_def)
    with v1 CB show ?thesis by simp
  qed
qed

lemma consoleOnly_console: "consoleOnly w (console e w)"
  unfolding consoleOnly_def console_def by blast

lemma consoleOnly_trans: "consoleOnly w w1 \<Longrightarrow> consoleOnly w1 w2 \<Longrightarrow> consoleOnly w w2"
  unfolding consoleOnly_def by auto

lemma consoleOnly_console2: "consoleOnly w w1 \<Longrightarrow> consoleOnly w (console e w1)"
  using consoleOnly_console consoleOnly_trans by blast

lemma consoleOnly_same:
  assumes "consoleOnly w w'"
  shows "w_variables w' = w_variables w" "w_collections w' = w_collections w"
    "w_pages w' = w_pages w" "w_ui w' = w_ui w" "getVariable w' j = getVariable w j"
    "ids w' = ids w" "valueAt w' j m = valueAt w j m" "getCollection w' c = getCollection w c"
    "getNode w' n = getNode w n"
  using assms
  by (auto simp: consoleOnly_def getVariable_def ids_def valueAt_def getCollection_def getNode_def)

lemma runPhases_unfold:
  fixes H w selected dest safeToMove dups
  defines "g \<equiv> runPhases H w selected dest safeToMove dups"
  shows "\<exists>w0 w1' w2' w3' w4.
           consoleOnly w w0
         \<and> phase1 H dest safeToMove (w0, [], 0, 0)
             = (g_afterPhase1 g, g_idMapping g, g_createSuccessCount g, g_createErrorCount g)
         \<and> consoleOnly (g_afterPhase1 g) w1'
         \<and> phase2 H dest (g_idMapping g) safeToMove (w1', 0, 0)
             = (g_afterPhase2 g, g_valueSuccessCount g, g_valueErrorCount g)
         \<and> consoleOnly (g_afterPhase2 g) w2'
         \<and> g_allBindings g = findAllVariableBindings w2' (map fst (g_idMapping g))
         \<and> phase3 H (g_idMapping g) (g_allBindings g) (w2', 0, 0)
             = (g_afterPhase3 g, g_rebindSuccessCount g, g_rebindErrorCount g)
         \<and> consoleOnly (g_afterPhase3 g) w3'
         \<and> phase4 H (map fst (g_idMapping g)) (w3', 0) = (w4, g_deleteCount g)
         \<and> consoleOnly w4 (g_afterPhase4 g)"
proof -
  let ?w0 = "console (ConsoleLog [Str ''  Skipped (duplicates):'', Num (length dups)])
                (console (ConsoleLog [Str ''  Moving:'', Num (length safeToMove)])
                (console (ConsoleLog [Str ''  Selected:'', Num (length selected)])
                (console (ConsoleLog [Str ''PHASE 1: Creating new variables (without values)...''])
                   w)))"
  obtain w1 idm cs ce where p1: "phase1 H dest safeToMove (?w0, [], 0, 0) = (w1, idm, cs, ce)"
    by (cases "phase1 H dest safeToMove (?w0, [], 0, 0)")
  let ?w1 = "console (ConsoleLog [Str ''PHASE 2: Copying values...''])
                 (console (ConsoleLog [Str ''PHASE 1 complete:'', Num cs,
                                       Str ''created,'', Num ce, Str ''failed'']) w1)"
  obtain w2 vs ve where p2: "phase2 H dest idm safeToMove (?w1, 0, 0) = (w2, vs, ve)"
    by (cases "phase2 H dest idm safeToMove (?w1, 0, 0)")
  let ?w2' = "console (ConsoleLog [Str ''PHASE 3: Finding all variable bindings...''])
                 (console (ConsoleLog [Str ''PHASE 2 complete:'', Num vs,
                                       Str ''copied,'', Num ve, Str ''failed'']) w2)"
  let ?bs = "findAllVariableBindings ?w2' (map fst idm)"
  let ?w2 = "console (ConsoleLog [Str ''  Found'', Num (length ?bs), Str ''bindings to update''])
               ?w2'"
  obtain w3 rs re where p3: "phase3 H idm ?bs (?w2, 0, 0) = (w3, rs, re)"
    by (cases "phase3 H idm ?bs (?w2, 0, 0)")
  let ?w3 = "console (ConsoleLog [Str ''PHASE 4: Deleting old variables...''])
                 (console (ConsoleLog [Str ''PHASE 3 complete:'', Num rs,
                                       Str ''rebound,'', Num re, Str ''failed'']) w3)"
  obtain w4 d where p4: "phase4 H (map fst idm) (?w3, 0) = (w4, d)"
    by (cases "phase4 H (map fst idm) (?w3, 0)")
  have g: "g = \<lparr>g_afterPhase1 = w1, g_idMapping = idm,
          g_createSuccessCount = cs, g_createErrorCount = ce,
          g_afterPhase2 = w2, g_valueSuccessCount = vs,
          g_valueErrorCount = ve, g_allBindings = ?bs,
          g_afterPhase3 = w3, g_rebindSuccessCount = rs,
          g_rebindErrorCount = re,
          g_afterPhase4 = console (ConsoleLog [Str ''PHASE 4 complete:'', Num d, Str ''deleted'']) w4,
          g_deleteCount = d\<rparr>"
    unfolding g_def runPhases_def Let_def p1 p2 p3 p4 prod.case ..
  have same: "findAllVariableBindings ?w2 (map fst idm) = ?bs"
    by (simp add: findAllVariableBindings_def console_def)
  have "consoleOnly w ?w0" by (intro consoleOnly_console2 consoleOnly_console)
  moreover have "consoleOnly w1 ?w1" by (intro consoleOnly_console2 consoleOnly_console)
  moreover have "consoleOnly w2 ?w2" by (intro consoleOnly_console2 consoleOnly_console)
  moreover have "consoleOnly w3 ?w3" by (intro consoleOnly_console2 consoleOnly_console)
  moreover have "consoleOnly w4 (console (ConsoleLog [Str ''PHASE 4 complete:'', Num d, Str ''deleted'']) w4)"
    by (rule consoleOnly_console)
  moreover have sel: "g_afterPhase1 g = w1" "g_idMapping g = idm" "g_createSuccessCount g = cs"
    "g_createErrorCount g = ce" "g_afterPhase2 g = w2" "g_valueSuccessCount g = vs"
    "g_valueErrorCount g = ve" "g_allBindings g = ?bs" "g_afterPhase3 g = w3"
    "g_rebindSuccessCount g = rs" "g_rebindErrorCount g = re"
    "g_afterPhase4 g = console (ConsoleLog [Str ''PHASE 4 complete:'', Num d, Str ''deleted'']) w4"
    "g_deleteCount g = d"
    unfolding g by simp_all
  ultimately have "consoleOnly w ?w0
         \<and> phase1 H dest safeToMove (?w0, [], 0, 0)
             = (g_afterPhase1 g, g_idMapping g, g_createSuccessCount g, g_createErrorCount g)
         \<and> consoleOnly (g_afterPhase1 g) ?w1
         \<and> phase2 H dest (g_idMapping g) safeToMove (?w1, 0, 0)
             = (g_afterPhase2 g, g_valueSuccessCount g, g_valueErrorCount g)
         \<and> consoleOnly (g_afterPhase2 g) ?w2
         \<and> g_allBindings g = findAllVariableBindings ?w2 (map fst (g_idMapping g))
         \<and> phase3 H (g_idMapping g) (g_allBindings g) (?w2, 0, 0)
             = (g_afterPhase3 g, g_rebindSuccessCount g, g_rebindErrorCount g)
         \<and> consoleOnly (g_afterPhase3 g) ?w3
         \<and> phase4 H (map fst (g_idMapping g)) (?w3, 0) = (w4, g_deleteCount g)
         \<and> consoleOnly w4 (g_afterPhase4 g)"
    unfolding sel using p1 p2 p3 p4 same by (intro conjI) (assumption | rule sym)+
  then show ?thesis by (intro exI)
qed

lemma runPhases_shells:
  fixes H w selected dest safeToMove dups
  defines "g \<equiv> runPhases H w selected dest safeToMove dups"
  shows "\<exists>w1'. consoleOnly (g_afterPhase1 g) w1'
           \<and> phase2 H dest (g_idMapping g) safeToMove (w1', 0, 0)
               = (g_afterPhase2 g, g_valueSuccessCount g, g_valueErrorCount g)
           \<and> shellsOk (ids w) (g_afterPhase1 g) (g_idMapping g)
           \<and> (\<forall>j \<in> ids w. getVariable (g_afterPhase1 g) j = getVariable w j)
           \<and> w_pages (g_afterPhase1 g) = w_pages w \<and> w_ui (g_afterPhase1 g) = w_ui w
           \<and> g_createSuccessCount g + g_createErrorCount g = length safeToMove
           \<and> length (g_idMapping g) \<le> g_createSuccessCount g
           \<and> fst ` set (g_idMapping g) \<subseteq> v_id ` set safeToMove"
proof -
  from runPhases_unfold[where H = H and w = w and selected = selected and dest = dest
      and safeToMove = safeToMove and dups = dups, folded g_def]
  obtain w0 w1' where c0: "consoleOnly w w0"
    and p1: "phase1 H dest safeToMove (w0, [], 0, 0)
             = (g_afterPhase1 g, g_idMapping g, g_createSuccessCount g, g_createErrorCount g)"
    and c1: "consoleOnly (g_afterPhase1 g) w1'"
    and p2: "phase2 H dest (g_idMapping g) safeToMove (w1', 0, 0)
             = (g_afterPhase2 g, g_valueSuccessCount g, g_valueErrorCount g)"
    by iprover
  have ok0: "shellsOk (ids w) w0 []" using consoleOnly_same(6)[OF c0] by (simp add: shellsOk_def)
  note inv = phase1_inv[OF p1 ok0]
  from inv have gr: "grows w0 (g_afterPhase1 g)" by (rule conjunct1)
  from inv have ok: "shellsOk (ids w) (g_afterPhase1 g) (g_idMapping g)"
    by (rule conjunct2[THEN conjunct1])
  have n: "g_createSuccessCount g + g_createErrorCount g = length safeToMove"
    using inv[THEN conjunct2, THEN conjunct2, THEN conjunct1] by simp
  have l: "length (g_idMapping g) \<le> g_createSuccessCount g"
    using inv[THEN conjunct2, THEN conjunct2, THEN conjunct2, THEN conjunct1] by simp
  have k: "fst ` set (g_idMapping g) \<subseteq> v_id ` set safeToMove"
    using inv[THEN conjunct2, THEN conjunct2, THEN conjunct2, THEN conjunct2, THEN conjunct2]
    by simp
  have same: "\<forall>j \<in> ids w. getVariable (g_afterPhase1 g) j = getVariable w j"
    using gr consoleOnly_same(5,6)[OF c0] unfolding grows_def by simp
  have pg: "w_pages (g_afterPhase1 g) = w_pages w" "w_ui (g_afterPhase1 g) = w_ui w"
    using gr consoleOnly_same(3,4)[OF c0] unfolding grows_def by simp_all
  from c1 p2 ok same pg n l k show ?thesis by (intro exI[of _ w1'] conjI)
qed

text \<open>
  C1. In a run of the four phases, let \<open>B\<close> be one of the variables moved, the only one
  with its identity, let \<open>idMapping\<close> hold a new variable \<open>SB\<close> for \<open>B\<close> and a new
  variable \<open>SA\<close> for the identity \<open>A\<close>, and let the value of \<open>B\<close> paired with the
  destination mode \<open>i\<close> be an alias to \<open>A\<close>. If the host refuses no write to \<open>SB\<close>
  (and mode identities are distinct within the destination collection), then after
  phase 2 the value of \<open>SB\<close> at that mode is an alias to \<open>SA\<close>. \<open>SA\<close> is a variable
  created by this run: it was not in the document before, so it is not the original
  \<open>A\<close>. The list of moved variables is arbitrary, so the order in which \<open>A\<close> and \<open>B\<close>
  are processed plays no part.
\<close>

theorem alias_points_to_new_variable:
  fixes H w selected dest safeToMove dups
  defines "g \<equiv> runPhases H w selected dest safeToMove dups"
  assumes B: "B \<in> set safeToMove"
      and only: "\<forall>C \<in> set safeToMove. v_id C = v_id B \<longrightarrow> C = B"
      and mB: "map_of (g_idMapping g) (v_id B) = Some SB"
      and mA: "map_of (g_idMapping g) A = Some SA"
      and dist: "distinct (map modeId (c_modes dest))"
      and i: "i < length (c_modes dest)" "i < length (v_valuesByMode B)"
      and x: "map_of (v_valuesByMode B) (map fst (v_valuesByMode B) ! i) = Some (VariableAlias A)"
      and acc: "\<And>w m y. \<not> H w (SetValueForMode SB m y)"
  shows "valueAt (g_afterPhase2 g) SB (modeId (c_modes dest ! i)) = Some (VariableAlias SA)
       \<and> getVariable w SA = None \<and> getVariable (g_afterPhase2 g) SA \<noteq> None
       \<and> (getVariable w A \<noteq> None \<longrightarrow> SA \<noteq> A)"
proof -
  from runPhases_shells[where H = H and w = w and selected = selected and dest = dest
      and safeToMove = safeToMove and dups = dups, folded g_def]
  obtain w1' where c1: "consoleOnly (g_afterPhase1 g) w1'"
    and p2: "phase2 H dest (g_idMapping g) safeToMove (w1', 0, 0)
               = (g_afterPhase2 g, g_valueSuccessCount g, g_valueErrorCount g)"
    and ok: "shellsOk (ids w) (g_afterPhase1 g) (g_idMapping g)"
    by iprover
  from mB mA have inB: "SB \<in> snd ` set (g_idMapping g)" and inA: "SA \<in> snd ` set (g_idMapping g)"
    by (force dest: map_of_SomeD)+
  from ok have sub: "snd ` set (g_idMapping g) \<subseteq> ids (g_afterPhase1 g)"
    and inj: "distinct (map snd (g_idMapping g))"
    and new: "snd ` set (g_idMapping g) \<inter> ids w = {}"
    unfolding shellsOk_def by blast+
  from inB inA sub have "SB \<in> ids (g_afterPhase1 g)" "SA \<in> ids (g_afterPhase1 g)" by blast+
  then have exB: "getVariable w1' SB \<noteq> None" and exA: "getVariable w1' SA \<noteq> None"
    using consoleOnly_same(5)[OF c1] by (simp_all add: getVariable_None_iff)
  have "valueAt (g_afterPhase2 g) SB (modeId (c_modes dest ! i)) =
           (case expectedWrite w1' (g_idMapping g) (VariableAlias A) of Some y \<Rightarrow> Some y
            | None \<Rightarrow> valueAt w1' SB (modeId (c_modes dest ! i)))"
    by (rule phase2_value[where H = H and B = B and vs = safeToMove and a = 0 and b = 0
                            and a' = "g_valueSuccessCount g" and b' = "g_valueErrorCount g"])
       (use acc mA dist i x inj mB p2 B only exB in simp_all)
  then have 1: "valueAt (g_afterPhase2 g) SB (modeId (c_modes dest ! i)) = Some (VariableAlias SA)"
    using mA by (simp add: expectedWrite_def)
  from inA new have 2: "getVariable w SA = None" by (auto simp: getVariable_None_iff)
  from phase2_frame[OF p2] exA have 3: "getVariable (g_afterPhase2 g) SA \<noteq> None"
    by (simp add: keeps_def)
  from 2 have 4: "getVariable w A \<noteq> None \<longrightarrow> SA \<noteq> A" by auto
  from 1 2 3 4 show ?thesis by blast
qed

theorem alias_points_to_new_variable_witness:
  "colorAlias \<in> set [colorAlias, colorBase]
   \<and> v_id colorBase \<noteq> v_id colorAlias
   \<and> map_of (g_idMapping (runPhases accepting exampleWorld [''B'', ''A''] tokensCollection
                 [colorAlias, colorBase] [])) (v_id colorAlias) = Some ''vv''
   \<and> map_of (g_idMapping (runPhases accepting exampleWorld [''B'', ''A''] tokensCollection
                 [colorAlias, colorBase] [])) ''A'' = Some ''vvv''
   \<and> distinct (map modeId (c_modes tokensCollection))
   \<and> map_of (v_valuesByMode colorAlias) (map fst (v_valuesByMode colorAlias) ! 0)
       = Some (VariableAlias ''A'')
   \<and> valueAt (g_afterPhase2 (runPhases accepting exampleWorld [''B'', ''A''] tokensCollection
                 [colorAlias, colorBase] [])) ''vv'' ''t1'' = Some (VariableAlias ''vvv'')
   \<and> getVariable exampleWorld ''vvv'' = None
   \<and> map_of (g_idMapping (runPhases accepting exampleWorld [''A'', ''B''] tokensCollection
                 [colorBase, colorAlias] [])) (v_id colorAlias) = Some ''vvv''
   \<and> map_of (g_idMapping (runPhases accepting exampleWorld [''A'', ''B''] tokensCollection
                 [colorBase, colorAlias] [])) ''A'' = Some ''vv''
   \<and> valueAt (g_afterPhase2 (runPhases accepting exampleWorld [''A'', ''B''] tokensCollection
                 [colorBase, colorAlias] [])) ''vvv'' ''t1'' = Some (VariableAlias ''vv'')"
proof -
  let ?g1 = "runPhases accepting exampleWorld [''B'', ''A''] tokensCollection
               [colorAlias, colorBase] []"
  let ?g2 = "runPhases accepting exampleWorld [''A'', ''B''] tokensCollection
               [colorBase, colorAlias] []"
  have B1: "colorAlias \<in> set [colorAlias, colorBase]"
    and B2: "colorAlias \<in> set [colorBase, colorAlias]" by simp_all
  have ne: "v_id colorBase \<noteq> v_id colorAlias" by code_simp
  then have only1: "\<forall>C \<in> set [colorAlias, colorBase]. v_id C = v_id colorAlias \<longrightarrow> C = colorAlias"
    and only2: "\<forall>C \<in> set [colorBase, colorAlias]. v_id C = v_id colorAlias \<longrightarrow> C = colorAlias"
    by simp_all
  have m1: "map_of (g_idMapping ?g1) (v_id colorAlias) = Some ''vv''"
    "map_of (g_idMapping ?g1) ''A'' = Some ''vvv''"
    and m2: "map_of (g_idMapping ?g2) (v_id colorAlias) = Some ''vvv''"
    "map_of (g_idMapping ?g2) ''A'' = Some ''vv''"
    by code_simp+
  have dist: "distinct (map modeId (c_modes tokensCollection))" by code_simp
  have i: "0 < length (c_modes tokensCollection)" "0 < length (v_valuesByMode colorAlias)"
    by code_simp+
  have x: "map_of (v_valuesByMode colorAlias) (map fst (v_valuesByMode colorAlias) ! 0)
       = Some (VariableAlias ''A'')" by code_simp
  have m: "modeId (c_modes tokensCollection ! 0) = ''t1''" by code_simp
  note T1 = alias_points_to_new_variable[OF B1 only1 m1 dist i x accepting_all(1)]
  note T2 = alias_points_to_new_variable[OF B2 only2 m2 dist i x accepting_all(1)]
  from T1 have c1: "valueAt (g_afterPhase2 ?g1) ''vv'' ''t1'' = Some (VariableAlias ''vvv'')"
    and c2: "getVariable exampleWorld ''vvv'' = None"
    unfolding m by iprover+
  from T2 have c3: "valueAt (g_afterPhase2 ?g2) ''vvv'' ''t1'' = Some (VariableAlias ''vv'')"
    unfolding m by iprover
  from B1 ne m1 m2 dist x c1 c2 c3 show ?thesis by iprover
qed

lemma nodesOnly_refl: "nodesOnly N w w"
  by (simp add: nodesOnly_def)

lemma nodesOnly_trans: "nodesOnly N w w1 \<Longrightarrow> nodesOnly N' w1 w2 \<Longrightarrow> nodesOnly (N \<union> N') w w2"
  by (simp add: nodesOnly_def)

lemma nodesOnly_console: "nodesOnly N w w' \<Longrightarrow> nodesOnly N w (console e w')"
  by (simp add: nodesOnly_def) (simp add: console_def getNode_def)

lemma getNode_updateNode_other:
  assumes "n \<noteq> i" and f: "\<And>m. n_id (f m) = n_id m"
  shows "getNode (updateNode i f w) n = getNode w n"
proof -
  have "concat (map (map (\<lambda>m. if n_id m = i then f m else m)) (w_pages w))
          = map (\<lambda>m. if n_id m = i then f m else m) (concat (w_pages w))"
    by (simp add: map_concat)
  moreover have "find (\<lambda>m. n_id m = n) (map (\<lambda>m. if n_id m = i then f m else m) xs)
                   = find (\<lambda>m. n_id m = n) xs" for xs
    using assms by (induction xs) auto
  ultimately show ?thesis by (simp add: getNode_def updateNode_def)
qed

lemma updateNode_nodesOnly: "(\<And>m. n_id (f m) = n_id m) \<Longrightarrow> nodesOnly {i} w (updateNode i f w)"
  by (simp add: nodesOnly_def getNode_updateNode_other) (simp add: updateNode_def)

lemma hostNode_nodesOnly:
  "hostNode H w c i f = Inr w' \<Longrightarrow> (\<And>m. n_id (f m) = n_id m) \<Longrightarrow> nodesOnly {i} w w'"
  by (auto simp: hostNode_def updateNode_nodesOnly split: if_splits)

lemma rebindItems_nodesOnly:
  assumes "rebindItems H w bc ac i f cur nv idx = (w', r)" and "\<And>xs m. n_id (f xs m) = n_id m"
  shows "nodesOnly {i} w w'"
  using assms
  by (auto simp: rebindItems_def Let_def nodesOnly_refl
           split: paints.splits if_splits sum.splits dest!: hostNode_nodesOnly)

lemma rebindVariable_body_nodesOnly:
  assumes "rebindVariable_body H w i p nv idx arr = (w', r)"
  shows "nodesOnly {i} w w'"
proof (cases "getNode w i")
  case None
  with assms show ?thesis by (simp add: rebindVariable_body_def nodesOnly_refl)
next
  case (Some n)
  show ?thesis
  proof (cases arr)
    case False
    with assms Some show ?thesis
      by (auto simp: rebindVariable_body_def setBoundVariable_def nodesOnly_refl
               split: if_splits sum.splits dest!: hostNode_nodesOnly)
  next
    case True
    with assms Some have
      "nodeItems p n = Absent \<and> w' = w
       \<or> rebindItems H w (bindCallOf p) (assignCallOf p i) i (withItems p) (nodeItems p n) nv idx
            = (w', r)"
      by (auto simp: body_array split: if_splits)
    moreover have "\<And>xs m. n_id (withItems p xs m) = n_id m" by (simp add: withItems_def)
    ultimately show ?thesis using rebindItems_nodesOnly nodesOnly_refl by blast
  qed
qed

lemma rebindVariable_nodesOnly:
  "rebindVariable H w i p nv idx arr = (w', b) \<Longrightarrow> nodesOnly {i} w w'"
  by (auto simp: rebindVariable_def split: prod.splits outcome.splits
           dest!: rebindVariable_body_nodesOnly intro: nodesOnly_console)

lemma phase3_frame:
  assumes "phase3 H idm bs (w, a, b) = (w', a', b')"
  shows "nodesOnly (b_node ` set bs) w w' \<and> a' + b' = a + b + length bs"
  using assms
proof (induction bs arbitrary: w a b)
  case Nil
  then show ?case by (simp add: nodesOnly_refl)
next
  case (Cons x bs)
  have "\<exists>w1 a1 b1. phase3 H idm bs (w1, a1, b1) = (w', a', b') \<and> a1 + b1 = Suc (a + b)
          \<and> nodesOnly {b_node x} w w1"
  proof (cases "map_of idm (b_variableId x)")
    case None
    with Cons.prems have "phase3 H idm bs (w, a, Suc b) = (w', a', b')" by simp
    moreover have "a + Suc b = Suc (a + b)" by simp
    ultimately show ?thesis using nodesOnly_refl by blast
  next
    case (Some nv)
    obtain w1 r where rb: "rebindVariable H w (b_node x) (b_property x) nv (b_bindingIndex x)
                              (b_isArrayBinding x) = (w1, r)"
      by (cases "rebindVariable H w (b_node x) (b_property x) nv (b_bindingIndex x)
                              (b_isArrayBinding x)")
    note f = rebindVariable_nodesOnly[OF rb]
    show ?thesis
    proof (cases r)
      case True
      let ?w = "console (ConsoleLog [Str ''  Rebound:'',
                            Str (case getNode w1 (b_node x) of Some n \<Rightarrow> n_name n | None \<Rightarrow> []),
                            Str ''->'', Str (b_property x)]) w1"
      from Cons.prems Some rb True have "phase3 H idm bs (?w, Suc a, b) = (w', a', b')" by simp
      moreover have "Suc a + b = Suc (a + b)" by simp
      moreover have "nodesOnly {b_node x} w ?w" using f by (rule nodesOnly_console)
      ultimately show ?thesis by blast
    next
      case False
      from Cons.prems Some rb False have "phase3 H idm bs (w1, a, Suc b) = (w', a', b')" by simp
      moreover have "a + Suc b = Suc (a + b)" by simp
      ultimately show ?thesis using f by blast
    qed
  qed
  then obtain w1 a1 b1 where run: "phase3 H idm bs (w1, a1, b1) = (w', a', b')"
    and n: "a1 + b1 = Suc (a + b)" and f: "nodesOnly {b_node x} w w1" by iprover
  note ih = Cons.IH[OF run]
  from nodesOnly_trans[OF f ih[THEN conjunct1]]
  have "nodesOnly (b_node ` set (x # bs)) w w'" by simp
  moreover from ih n have "a' + b' = a + b + length (x # bs)" by simp
  ultimately show ?case by simp
qed

lemma arrayBindings_target:
  "x \<in> set (arrayBindings T n p k items) \<Longrightarrow> b_variableId x \<in> T \<and> b_node x = n_id n"
  by (induction items arbitrary: k) (auto split: option.splits if_splits)

lemma propertyBindings_target:
  assumes "x \<in> set (propertyBindings T n entry)"
  shows "b_variableId x \<in> T \<and> b_node x = n_id n"
proof -
  obtain p bnd where e: "entry = (p, bnd)" by (cases entry)
  show ?thesis
  proof (cases bnd)
    case (ArrayB items)
    with assms e show ?thesis by (simp add: propertyBindings_def arrayBindings_target)
  next
    case (SingleB io)
    with assms e show ?thesis
      by (cases io) (auto simp: propertyBindings_def split: if_splits)
  qed
qed

lemma findAllVariableBindings_target:
  assumes "x \<in> set (findAllVariableBindings w variableIds)"
  shows "b_variableId x \<in> set variableIds \<and> (\<exists>n \<in> set (concat (w_pages w)). b_node x = n_id n)"
proof -
  from assms obtain page n where n: "page \<in> set (w_pages w)" "n \<in> set page"
    "x \<in> set (nodeBindings (set variableIds) n)"
    by (auto simp: findAllVariableBindings_def)
  then have "\<exists>bv entry. boundVariables n = Some bv \<and> entry \<in> set bv
    \<and> x \<in> set (propertyBindings (set variableIds) n entry)"
    by (cases "boundVariables n") (auto simp: nodeBindings_def)
  then obtain bv entry where "boundVariables n = Some bv" "entry \<in> set bv"
    "x \<in> set (propertyBindings (set variableIds) n entry)"
    by iprover
  then have "b_variableId x \<in> set variableIds \<and> b_node x = n_id n"
    by (simp add: propertyBindings_target)
  with n show ?thesis by auto
qed

lemma find_filter_other:
  "find (\<lambda>v. v_id v = j) (filter (\<lambda>v. v_id v \<noteq> i) vs)
     = (if j = i then None else find (\<lambda>v. v_id v = j) vs)"
  by (induction vs) auto

lemma removeVariable_effect:
  assumes "removeVariable H w i = Inr w'"
  shows "getVariable w' j = (if j = i then None else getVariable w j)"
    and "w_pages w' = w_pages w" and "w_ui w' = w_ui w"
    and "\<not> H w (RemoveVariable i)"
  using assms
  by (auto simp: removeVariable_def getVariable_def find_filter_other split: if_splits)

lemma phase4_inv:
  assumes "phase4 H keys (w, n) = (w', n')"
  shows "(\<forall>j. j \<notin> set keys \<longrightarrow> getVariable w' j = getVariable w j)
       \<and> (\<forall>j. getVariable w' j = None \<or> getVariable w' j = getVariable w j)
       \<and> (\<forall>j \<in> set keys. (\<forall>w. \<not> H w (GetVariableById j)) \<and> (\<forall>w. \<not> H w (RemoveVariable j))
             \<longrightarrow> getVariable w' j = None)
       \<and> n \<le> n' \<and> n' \<le> n + length keys
       \<and> w_pages w' = w_pages w \<and> w_ui w' = w_ui w"
  using assms
proof (induction keys arbitrary: w n)
  case Nil
  then show ?case by simp
next
  case (Cons k keys)
  have "\<exists>w1 n1. phase4 H keys (w1, n1) = (w', n') \<and> n \<le> n1 \<and> n1 \<le> Suc n
          \<and> w_pages w1 = w_pages w \<and> w_ui w1 = w_ui w
          \<and> (\<forall>j. j \<noteq> k \<longrightarrow> getVariable w1 j = getVariable w j)
          \<and> (getVariable w1 k = None \<or> getVariable w1 k = getVariable w k)
          \<and> ((\<forall>w. \<not> H w (GetVariableById k)) \<and> (\<forall>w. \<not> H w (RemoveVariable k))
                \<longrightarrow> getVariable w1 k = None)"
  proof (cases "getVariableByIdAsync H w k")
    case (Inl e)
    let ?w = "console (ConsoleError [Str ''  Failed to delete variable:'', Str k, Err e]) w"
    from Inl have h: "H w (GetVariableById k)"
      by (simp add: getVariableByIdAsync_def split: if_splits)
    from Cons.prems Inl have "phase4 H keys (?w, n) = (w', n')" by simp
    moreover have "w_pages ?w = w_pages w" "w_ui ?w = w_ui w" by (simp_all add: console_def)
    ultimately show ?thesis using h by (intro exI[of _ ?w] exI[of _ n]) auto
  next
    case (Inr vo)
    then have vo: "vo = getVariable w k"
      by (simp add: getVariableByIdAsync_def split: if_splits)
    show ?thesis
    proof (cases vo)
      case None
      with Cons.prems Inr have "phase4 H keys (w, n) = (w', n')" by simp
      then show ?thesis using None vo by (intro exI[of _ w] exI[of _ n]) auto
    next
      case (Some ov)
      with vo have id: "v_id ov = k" using getVariable_id[of w k ov] by simp
      show ?thesis
      proof (cases "removeVariable H w k")
        case e: (Inl e)
        let ?w = "console (ConsoleError [Str ''  Failed to delete variable:'', Str k, Err e]) w"
        from e have h: "H w (RemoveVariable k)" by (simp add: removeVariable_def split: if_splits)
        from Cons.prems Inr Some id e have "phase4 H keys (?w, n) = (w', n')" by simp
        moreover have "w_pages ?w = w_pages w" "w_ui ?w = w_ui w" by (simp_all add: console_def)
        ultimately show ?thesis using h by (intro exI[of _ ?w] exI[of _ n]) auto
      next
        case r: (Inr w1)
        from Cons.prems Inr Some id r have "phase4 H keys (w1, Suc n) = (w', n')" by simp
        then show ?thesis using removeVariable_effect[OF r]
          by (intro exI[of _ w1] exI[of _ "Suc n"]) auto
      qed
    qed
  qed
  then obtain w1 n1 where run: "phase4 H keys (w1, n1) = (w', n')" and n: "n \<le> n1" "n1 \<le> Suc n"
    and pg: "w_pages w1 = w_pages w" "w_ui w1 = w_ui w"
    and other: "\<forall>j. j \<noteq> k \<longrightarrow> getVariable w1 j = getVariable w j"
    and self: "getVariable w1 k = None \<or> getVariable w1 k = getVariable w k"
    and del: "(\<forall>w. \<not> H w (GetVariableById k)) \<and> (\<forall>w. \<not> H w (RemoveVariable k))
                \<longrightarrow> getVariable w1 k = None"
    by iprover
  note ih = Cons.IH[OF run]
  from ih have i1: "\<forall>j. j \<notin> set keys \<longrightarrow> getVariable w' j = getVariable w1 j"
    and i2: "\<forall>j. getVariable w' j = None \<or> getVariable w' j = getVariable w1 j"
    and i3: "\<forall>j \<in> set keys. (\<forall>w. \<not> H w (GetVariableById j)) \<and> (\<forall>w. \<not> H w (RemoveVariable j))
             \<longrightarrow> getVariable w' j = None"
    and i4: "n1 \<le> n'" "n' \<le> n1 + length keys" "w_pages w' = w_pages w1" "w_ui w' = w_ui w1"
    by iprover+
  have a: "\<forall>j. j \<notin> set (k # keys) \<longrightarrow> getVariable w' j = getVariable w j"
    using i1 other by simp
  have b: "\<forall>j. getVariable w' j = None \<or> getVariable w' j = getVariable w j"
    using i2 other self by metis
  have c: "\<forall>j \<in> set (k # keys). (\<forall>w. \<not> H w (GetVariableById j)) \<and> (\<forall>w. \<not> H w (RemoveVariable j))
             \<longrightarrow> getVariable w' j = None"
    using i3 i2 del by (metis set_ConsD)
  have d: "n \<le> n'" "n' \<le> n + length (k # keys)" "w_pages w' = w_pages w" "w_ui w' = w_ui w"
    using i4 n pg by simp_all
  from a b c d show ?case by iprover
qed

end
